theory Spec2Isabelle
  imports Complex_Main "HOL-Library.Sublist"
begin

section \<open>JavaScript strings, numbers and regular expressions\<close>

text \<open>
  A JavaScript string is modelled as a \<^typ>\<open>string\<close>: a list of code units below 256,
  read as Latin-1. Command outputs, command templates and the files under /proc are taken
  to be of that kind. The helpers below are the library functions the two source files
  call.
\<close>

definition isDigit :: "char \<Rightarrow> bool" where
  \<comment> \<open>the class \<open>\d\<close>: the ten ASCII digits\<close>
  "isDigit c = (c \<in> set ''0123456789'')"

definition isSpace :: "char \<Rightarrow> bool" where
  \<comment> \<open>the class \<open>\s\<close> (and what \<open>trim\<close> strips) below 256: TAB, LF, VT, FF, CR, space, NBSP\<close>
  "isSpace c = (of_char c \<in> {9, 10, 11, 12, 13, 32, 160 :: nat})"

definition lowerChar :: "char \<Rightarrow> char" where
  \<comment> \<open>A-Z and the Latin-1 capitals (0xC0-0xDE without 0xD7) have a lower-case partner 32 above\<close>
  "lowerChar c =
     (let n = of_char c :: nat
      in if (65 \<le> n \<and> n \<le> 90) \<or> (192 \<le> n \<and> n \<le> 222 \<and> n \<noteq> 215)
         then char_of (n + 32) else c)"

definition toLowerCase :: "string \<Rightarrow> string" where
  "toLowerCase s = map lowerChar s"

fun startsWith :: "string \<Rightarrow> string \<Rightarrow> bool" where
  "startsWith s [] = True"
| "startsWith [] (p # ps) = False"
| "startsWith (c # cs) (p # ps) = (c = p \<and> startsWith cs ps)"

fun includes' :: "string \<Rightarrow> string \<Rightarrow> bool" where
  \<comment> \<open>\<open>s.includes(sub)\<close>: \<open>sub\<close> occurs at some position of \<open>s\<close>\<close>
  "includes' [] sub = (sub = [])"
| "includes' (c # cs) sub = (startsWith (c # cs) sub \<or> includes' cs sub)"

definition trim :: "string \<Rightarrow> string" where
  "trim s = rev (dropWhile isSpace (rev (dropWhile isSpace s)))"

fun splitChar :: "char \<Rightarrow> string \<Rightarrow> string list" where
  \<comment> \<open>\<open>s.split(sep)\<close> for a separator of one character: never an empty list\<close>
  "splitChar sep [] = [[]]"
| "splitChar sep (c # cs) =
     (if c = sep then [] # splitChar sep cs
      else (case splitChar sep cs of [] \<Rightarrow> [[c]] | p # ps \<Rightarrow> (c # p) # ps))"

subsection \<open>Numbers\<close>

text \<open>
  A JavaScript number is NaN or a value; the values are kept exact (every finite double is
  a rational), so the rounding of doubles and the infinities are not part of the model.
\<close>

datatype number = NaN | Num rat

definition geNum :: "number \<Rightarrow> rat \<Rightarrow> bool" where
  \<comment> \<open>\<open>x >= k\<close>: false when \<open>x\<close> is NaN\<close>
  "geNum x k = (case x of NaN \<Rightarrow> False | Num v \<Rightarrow> k \<le> v)"

definition digitVal :: "char \<Rightarrow> nat" where
  "digitVal c =
     (let n = of_char c :: nat
      in if 48 \<le> n \<and> n \<le> 57 then n - 48
         else if 97 \<le> n \<and> n \<le> 122 then n - 87
         else if 65 \<le> n \<and> n \<le> 90 then n - 55
         else 36)"

definition isRadixDigit :: "nat \<Rightarrow> char \<Rightarrow> bool" where
  "isRadixDigit radix c = (digitVal c < radix)"

definition digitsValue :: "nat \<Rightarrow> string \<Rightarrow> nat" where
  "digitsValue radix ds = foldl (\<lambda>acc c. acc * radix + digitVal c) 0 ds"

definition parseDigits :: "nat \<Rightarrow> bool \<Rightarrow> string \<Rightarrow> number" where
  "parseDigits radix neg s =
     (let ds = takeWhile (isRadixDigit radix) s
      in if ds = [] then NaN
         else Num (if neg then - of_nat (digitsValue radix ds) else of_nat (digitsValue radix ds)))"

definition stripHexPrefix :: "string \<Rightarrow> string option" where
  "stripHexPrefix s =
     (if startsWith s ''0x'' \<or> startsWith s ''0X'' then Some (drop 2 s) else None)"

definition parseInt :: "string \<Rightarrow> nat option \<Rightarrow> number" where
  \<comment> \<open>\<open>parseInt(s, radix)\<close> for no radix (\<open>None\<close>), 10 or 16: leading white space, a sign,
      a 0x prefix under radix 16 or none, then the longest prefix of digits\<close>
  "parseInt s radix =
     (let t = dropWhile isSpace s;
          neg = startsWith t ''-'';
          u = (if startsWith t ''-'' \<or> startsWith t ''+'' then drop 1 t else t)
      in case radix of
           Some r \<Rightarrow>
             (if r = 16 then parseDigits 16 neg (case stripHexPrefix u of Some v \<Rightarrow> v | None \<Rightarrow> u)
              else parseDigits r neg u)
         | None \<Rightarrow>
             (case stripHexPrefix u of Some v \<Rightarrow> parseDigits 16 neg v | None \<Rightarrow> parseDigits 10 neg u))"

subsection \<open>Regular expressions\<close>

text \<open>
  The three patterns of the source are built from literals, the classes \<open>\d\<close> and
  \<open>\s\<close>, sequence, alternation and \<open>+\<close>. The matcher is the backtracking one:
  \<open>rmatch r s\<close> lists, in the order the engine tries them, the rests of \<open>s\<close> after each
  way of matching \<open>r\<close> at the start of \<open>s\<close>; greedy \<open>+\<close> tries one more round first,
  and a round that consumes nothing is the last one.
\<close>

datatype regex =
  Eps | Lit char | Digit | Space | Seq regex regex | Alt regex regex | Plus regex

fun rmatch :: "regex \<Rightarrow> string \<Rightarrow> string list" where
  "rmatch Eps s = [s]"
| "rmatch (Lit c) s = (case s of [] \<Rightarrow> [] | x # xs \<Rightarrow> if x = c then [xs] else [])"
| "rmatch Digit s = (case s of [] \<Rightarrow> [] | x # xs \<Rightarrow> if isDigit x then [xs] else [])"
| "rmatch Space s = (case s of [] \<Rightarrow> [] | x # xs \<Rightarrow> if isSpace x then [xs] else [])"
| "rmatch (Seq a b) s = concat (map (rmatch b) (rmatch a s))"
| "rmatch (Alt a b) s = rmatch a s @ rmatch b s"
| "rmatch (Plus a) s =
     concat (map (\<lambda>t. if length t < length s then rmatch (Plus a) t @ [t] else [t]) (rmatch a s))"

fun lits :: "string \<Rightarrow> regex" where
  \<comment> \<open>a word, character by character\<close>
  "lits [] = Eps"
| "lits (c # cs) = Seq (Lit c) (lits cs)"

definition matchAt :: "regex \<Rightarrow> string \<Rightarrow> (string \<times> string) option" where
  \<comment> \<open>the first way of matching at the start of \<open>s\<close>: the matched text and the rest\<close>
  "matchAt r s =
     (case rmatch r s of [] \<Rightarrow> None | t # _ \<Rightarrow> Some (take (length s - length t) s, t))"

fun search :: "regex \<Rightarrow> string \<Rightarrow> string \<Rightarrow> (string \<times> string \<times> string) option" where
  \<comment> \<open>the leftmost match: the text before it (after \<open>pre\<close>), the match, the text after it\<close>
  "search r pre [] = (case matchAt r [] of None \<Rightarrow> None | Some (m, t) \<Rightarrow> Some (pre, m, t))"
| "search r pre (c # cs) =
     (case matchAt r (c # cs) of
        None \<Rightarrow> search r (pre @ [c]) cs
      | Some (m, t) \<Rightarrow> Some (pre, m, t))"

record pattern =
  anchored :: bool  \<comment> \<open>the pattern starts with \<open>^\<close>\<close>
  body :: regex

definition regexExec :: "pattern \<Rightarrow> string \<Rightarrow> (string \<times> string \<times> string) option" where
  "regexExec p s =
     (if anchored p
      then (case matchAt (body p) s of None \<Rightarrow> None | Some (m, t) \<Rightarrow> Some ([], m, t))
      else search (body p) [] s)"

definition matchRegex :: "string \<Rightarrow> pattern \<Rightarrow> string option" where
  \<comment> \<open>\<open>s.match(p)\<close> without the g flag, for a pattern that is one capture group: the
      result is null, or an array whose entries 0 and 1 are both the matched text\<close>
  "matchRegex s p = (case regexExec p s of None \<Rightarrow> None | Some (_, m, _) \<Rightarrow> Some m)"

definition replaceRegex :: "string \<Rightarrow> pattern \<Rightarrow> string \<Rightarrow> string" where
  \<comment> \<open>\<open>s.replace(p, by)\<close> without the g flag, for a replacement text without \<open>$\<close>\<close>
  "replaceRegex s p by' =
     (case regexExec p s of None \<Rightarrow> s | Some (pre, _, post) \<Rightarrow> pre @ by' @ post)"

function splitLoop :: "regex \<Rightarrow> string \<Rightarrow> string \<Rightarrow> string list" where
  \<comment> \<open>\<open>piece\<close> is the text since the last separator, the third argument what is left to
      scan; an empty match ends a piece only behind at least one character\<close>
  "splitLoop r piece [] = [piece]"
| "splitLoop r piece (c # cs) =
     (case matchAt r (c # cs) of
        None \<Rightarrow> splitLoop r (piece @ [c]) cs
      | Some (m, t) \<Rightarrow>
          (if m = [] then
             (if piece = [] then splitLoop r [c] cs else piece # splitLoop r [c] cs)
           else piece # splitLoop r [] t))"
  by pat_completeness auto
termination
proof (relation "measure (\<lambda>(r, piece, s). length s)")
  fix r :: regex and piece :: string and c :: char and cs x2 m t
  assume "matchAt r (c # cs) = Some x2" and "(m, t) = x2" and "m \<noteq> []"
  then have "m = take (length (c # cs) - length t) (c # cs)"
    by (auto simp add: matchAt_def split: list.splits)
  with \<open>m \<noteq> []\<close> have "length t < length (c # cs)"
    by (cases "length t < length (c # cs)") auto
  then show "((r, [], t), r, piece, c # cs) \<in> measure (\<lambda>(r, piece, s). length s)"
    by simp
qed auto

definition splitRegex :: "string \<Rightarrow> regex \<Rightarrow> string list" where
  \<comment> \<open>\<open>s.split(r)\<close> without a limit, for a pattern without capture groups\<close>
  "splitRegex s r =
     (if s = [] then (case matchAt r [] of None \<Rightarrow> [[]] | Some _ \<Rightarrow> [])
      else splitLoop r [] s)"


section \<open>The container runtime (src/unnamed/part_000)\<close>

datatype RuntimeType = Docker | Podman

fun runtimeName :: "RuntimeType \<Rightarrow> string" where
  \<comment> \<open>the string a value of the union type \<open>'docker' | 'podman'\<close> is\<close>
  "runtimeName Docker = ''docker''"
| "runtimeName Podman = ''podman''"

record ContainerRuntimeInfo =
  type :: RuntimeType
  version :: string
  composeInstalled :: bool
  composeVersion :: "string option"

datatype error = ExecError | ReadError | LocatorError

record exec_output =
  stdout :: string
  stderr :: string

text \<open>
  The class has two static fields. The state adds the list of the commands handed to
  \<open>execAsync\<close> so far, oldest first. The host is a \<open>shell\<close>: it answers a command, given
  the commands before it, with the captured output or with a rejection (command not
  found, exit status not zero). Any sequence of answers of a real host is such a function.
\<close>

record state =
  detectedRuntime :: "RuntimeType option"
  runtimeInfo :: "ContainerRuntimeInfo option"
  issued :: "string list"

type_synonym shell = "string list \<Rightarrow> string \<Rightarrow> error + exec_output"

definition initial :: state where
  "initial = \<lparr>detectedRuntime = None, runtimeInfo = None, issued = []\<rparr>"

definition execAsync :: "shell \<Rightarrow> string \<Rightarrow> state \<Rightarrow> (error + exec_output) \<times> state" where
  "execAsync sh cmd s = (sh (issued s) cmd, s\<lparr>issued := issued s @ [cmd]\<rparr>)"

definition detectRuntime :: "shell \<Rightarrow> state \<Rightarrow> RuntimeType option \<times> state" where
  "detectRuntime sh s =
     (case detectedRuntime s of
        Some r \<Rightarrow> (Some r, s)
      | None \<Rightarrow>
          (case execAsync sh ''docker --version'' s of
             (Inr out, s1) \<Rightarrow>
               (if includes' (toLowerCase (stdout out)) ''podman''
                then (Some Podman, s1\<lparr>detectedRuntime := Some Podman\<rparr>)
                else (Some Docker, s1\<lparr>detectedRuntime := Some Docker\<rparr>))
           | (Inl e, s1) \<Rightarrow>
               (case execAsync sh ''podman --version'' s1 of
                  (Inr out, s2) \<Rightarrow> (Some Podman, s2\<lparr>detectedRuntime := Some Podman\<rparr>)
                | (Inl e', s2) \<Rightarrow> (None, s2))))"

definition composePattern :: pattern where
  \<comment> \<open>\<open>/(\d+\.\d+\.\d+)/\<close>\<close>
  "composePattern =
     \<lparr>anchored = False,
      body = Seq (Plus Digit) (Seq (Lit CHR ''.'') (Seq (Plus Digit) (Seq (Lit CHR ''.'') (Plus Digit))))\<rparr>"

definition composeCheck :: "string \<Rightarrow> ContainerRuntimeInfo \<Rightarrow> ContainerRuntimeInfo" where
  \<comment> \<open>the body of the inner \<open>try\<close> of getRuntimeInfo once the compose command has resolved\<close>
  "composeCheck composeOutput info =
     (if composeOutput \<noteq> [] then
        (case matchRegex composeOutput composePattern of
           None \<Rightarrow> info
         | Some versionMatch \<Rightarrow>
             (let majorVersion =
                    (case splitChar CHR ''.'' versionMatch of
                       [] \<Rightarrow> NaN
                     | p # _ \<Rightarrow> parseInt p (Some 10))
              in info\<lparr>composeVersion := Some versionMatch,
                      composeInstalled := geNum majorVersion 2\<rparr>))
      else info)"

definition getRuntimeInfo :: "shell \<Rightarrow> state \<Rightarrow> ContainerRuntimeInfo option \<times> state" where
  "getRuntimeInfo sh s =
     (case detectRuntime sh s of
        (None, s1) \<Rightarrow> (None, s1)
      | (Some runtime, s1) \<Rightarrow>
          (if (case runtimeInfo s1 of None \<Rightarrow> False | Some ri \<Rightarrow> type ri = runtime)
           then (runtimeInfo s1, s1)
           else
             (let info = \<lparr>type = runtime, version = [], composeInstalled = False,
                          composeVersion = None\<rparr>
              in case execAsync sh (runtimeName runtime @ '' --version'') s1 of
                   (Inl e, s2) \<Rightarrow> (None, s2)
                 | (Inr versionOutput, s2) \<Rightarrow>
                     (let info1 = info\<lparr>version := trim (stdout versionOutput)\<rparr>;
                          (r, s3) = execAsync sh (runtimeName runtime @ '' compose version'') s2;
                          info2 = (case r of
                                     Inr composeOutput \<Rightarrow> composeCheck (stdout composeOutput) info1
                                   | Inl e \<Rightarrow> info1\<lparr>composeInstalled := False\<rparr>)
                      in (Some info2, s3\<lparr>runtimeInfo := Some info2\<rparr>)))))"

definition getCommand :: "shell \<Rightarrow> state \<Rightarrow> string \<times> state" where
  "getCommand sh s =
     (case detectRuntime sh s of
        (Some runtime, s1) \<Rightarrow> (runtimeName runtime, s1)
      | (None, s1) \<Rightarrow> (''docker'', s1))"

definition enginePattern :: pattern where
  \<comment> \<open>\<open>/^(docker|podman)/\<close>\<close>
  "enginePattern = \<lparr>anchored = True, body = Alt (lits ''docker'') (lits ''podman'')\<rparr>"

definition execCommand :: "shell \<Rightarrow> string \<Rightarrow> state \<Rightarrow> (error + exec_output) \<times> state" where
  "execCommand sh command s =
     (let (runtime, s1) = getCommand sh s;
          fullCommand = replaceRegex command enginePattern runtime
      in execAsync sh fullCommand s1)"

definition isRuntimeRunning :: "shell \<Rightarrow> state \<Rightarrow> bool \<times> state" where
  "isRuntimeRunning sh s =
     (let (runtime, s1) = getCommand sh s
      in case execAsync sh (runtime @ '' ps'') s1 of
           (Inr out, s2) \<Rightarrow> (stdout out \<noteq> [], s2)
         | (Inl e, s2) \<Rightarrow> (False, s2))"

definition isUserInRuntimeGroup :: "shell \<Rightarrow> state \<Rightarrow> bool \<times> state" where
  "isUserInRuntimeGroup sh s =
     (case detectRuntime sh s of
        (None, s1) \<Rightarrow> (False, s1)
      | (Some Podman, s1) \<Rightarrow> (True, s1)
      | (Some Docker, s1) \<Rightarrow>
          (case execAsync sh ''id -Gn'' s1 of
             (Inr out, s2) \<Rightarrow> (''docker'' \<in> set (splitRegex (stdout out) (Plus Space)), s2)
           | (Inl e, s2) \<Rightarrow> (False, s2)))"

definition requiresGroupMembership :: "shell \<Rightarrow> state \<Rightarrow> bool \<times> state" where
  "requiresGroupMembership sh s =
     (case detectRuntime sh s of (runtime, s1) \<Rightarrow> (runtime = Some Docker, s1))"

definition reset :: "state \<Rightarrow> state" where
  "reset s = s\<lparr>detectedRuntime := None, runtimeInfo := None\<rparr>"

definition getNetworkMode :: "shell \<Rightarrow> state \<Rightarrow> string option \<times> state" where
  \<comment> \<open>getRuntimeInfo has no path that throws, so the \<open>catch\<close> of the source is never entered\<close>
  "getNetworkMode sh s =
     (case detectRuntime sh s of
        (Some Podman, s1) \<Rightarrow>
          (case getRuntimeInfo sh s1 of
             (Some info, s2) \<Rightarrow>
               (if version info \<noteq> [] \<and> includes' (version info) ''4.4''
                then (Some ''pasta'', s2) else (Some ''slirp4netns'', s2))
           | (None, s2) \<Rightarrow> (Some ''slirp4netns'', s2))
      | (_, s1) \<Rightarrow> (None, s1))"


subsection \<open>Container, volume and compose operations\<close>

definition stdoutOf :: "(error + exec_output) \<times> state \<Rightarrow> (error + string) \<times> state" where
  \<comment> \<open>\<open>const { stdout } = await execAsync(...)\<close>: a rejection leaves the method\<close>
  "stdoutOf rs = (case rs of (Inr out, s) \<Rightarrow> (Inr (stdout out), s) | (Inl e, s) \<Rightarrow> (Inl e, s))"

definition containerInspect :: "shell \<Rightarrow> string \<Rightarrow> string \<Rightarrow> state \<Rightarrow> (error + string) \<times> state" where
  \<open>containerInspect sh containerName format s =
     (let (runtime, s1) = getCommand sh s
      in case stdoutOf (execAsync sh
                (runtime @ '' inspect --format="'' @ format @ ''" '' @ containerName) s1) of
           (Inr out, s2) \<Rightarrow> (Inr (trim out), s2)
         | (Inl e, s2) \<Rightarrow> (Inl e, s2))\<close>

definition containerStart :: "shell \<Rightarrow> string \<Rightarrow> state \<Rightarrow> (error + string) \<times> state" where
  "containerStart sh containerName s =
     (let (runtime, s1) = getCommand sh s
      in stdoutOf (execAsync sh (runtime @ '' container start '' @ containerName) s1))"

definition containerStop :: "shell \<Rightarrow> string \<Rightarrow> state \<Rightarrow> (error + string) \<times> state" where
  "containerStop sh containerName s =
     (let (runtime, s1) = getCommand sh s
      in stdoutOf (execAsync sh (runtime @ '' container stop '' @ containerName) s1))"

definition containerPause :: "shell \<Rightarrow> string \<Rightarrow> state \<Rightarrow> (error + string) \<times> state" where
  "containerPause sh containerName s =
     (let (runtime, s1) = getCommand sh s
      in stdoutOf (execAsync sh (runtime @ '' container pause '' @ containerName) s1))"

definition containerUnpause :: "shell \<Rightarrow> string \<Rightarrow> state \<Rightarrow> (error + string) \<times> state" where
  "containerUnpause sh containerName s =
     (let (runtime, s1) = getCommand sh s
      in stdoutOf (execAsync sh (runtime @ '' container unpause '' @ containerName) s1))"

definition containerRemove :: "shell \<Rightarrow> string \<Rightarrow> state \<Rightarrow> (error + string) \<times> state" where
  "containerRemove sh containerName s =
     (let (runtime, s1) = getCommand sh s
      in stdoutOf (execAsync sh (runtime @ '' rm '' @ containerName) s1))"

definition volumeRemove :: "shell \<Rightarrow> string \<Rightarrow> state \<Rightarrow> (error + string) \<times> state" where
  "volumeRemove sh volumeName s =
     (let (runtime, s1) = getCommand sh s
      in stdoutOf (execAsync sh (runtime @ '' volume rm '' @ volumeName) s1))"

definition containerList :: "shell \<Rightarrow> string option \<Rightarrow> state \<Rightarrow> (error + string) \<times> state" where
  \<comment> \<open>the optional filter is used when it is given and not the empty string\<close>
  \<open>containerList sh filter' s =
     (let (runtime, s1) = getCommand sh s;
          filterArg = (case filter' of
                         None \<Rightarrow> []
                       | Some f \<Rightarrow> if f \<noteq> [] then ''--filter "'' @ f @ ''"'' else [])
      in stdoutOf (execAsync sh
           (runtime @ '' ps -a '' @ filterArg @ '' --format "{{.Names}}"'') s1))\<close>

definition composeUp :: "shell \<Rightarrow> string \<Rightarrow> state \<Rightarrow> (error + exec_output) \<times> state" where
  "composeUp sh composeFile s =
     (let (runtime, s1) = getCommand sh s
      in execAsync sh (runtime @ '' compose -f '' @ composeFile @ '' up -d'') s1)"

definition composeDown :: "shell \<Rightarrow> string \<Rightarrow> state \<Rightarrow> (error + unit) \<times> state" where
  "composeDown sh composeFile s =
     (let (runtime, s1) = getCommand sh s
      in case execAsync sh (runtime @ '' compose -f '' @ composeFile @ '' down'') s1 of
           (Inr out, s2) \<Rightarrow> (Inr (), s2)
         | (Inl e, s2) \<Rightarrow> (Inl e, s2))"

section \<open>The readiness collector (src/renderer/lib/specs.ts)\<close>

record Specs =
  cpuCores :: number
  ramGB :: number
  kvmEnabled :: bool
  dockerInstalled :: bool
  dockerComposeInstalled :: bool
  dockerIsRunning :: bool
  dockerIsInUserGroups :: bool
  freeRDP3Installed :: bool
  ipTablesLoaded :: bool
  iptableNatLoaded :: bool

definition satisfiesPrequisites :: "shell \<Rightarrow> Specs \<Rightarrow> state \<Rightarrow> bool \<times> state" where
  "satisfiesPrequisites sh specs s =
     (let (requiresGroup, s1) = requiresGroupMembership sh s;
          groupCheckPassed = (if requiresGroup then dockerIsInUserGroups specs else True)
      in (dockerInstalled specs \<and>
          dockerComposeInstalled specs \<and>
          dockerIsRunning specs \<and>
          groupCheckPassed \<and>
          freeRDP3Installed specs \<and>
          ipTablesLoaded specs \<and>
          iptableNatLoaded specs \<and>
          kvmEnabled specs \<and>
          geNum (ramGB specs) 4 \<and>
          geNum (cpuCores specs) 2, s1))"

definition defaultSpecs :: Specs where
  "defaultSpecs =
     \<lparr>cpuCores = Num 0, ramGB = Num 0, kvmEnabled = False, dockerInstalled = False,
      dockerComposeInstalled = False, dockerIsRunning = False, dockerIsInUserGroups = False,
      freeRDP3Installed = False, ipTablesLoaded = False, iptableNatLoaded = False\<rparr>"

text \<open>
  What the collector reads besides the shell: the file system (\<open>fs.readFileSync\<close> throws
  when the file cannot be read, \<open>fs.existsSync\<close> never throws) and the locator
  \<open>getFreeRDP\<close> of \<open>../utils/getFreeRDP\<close>, which is not among the sources: its outcome
  (a thrown error, or a path or nothing) is a parameter.
\<close>

record host =
  readFileSync :: "string \<Rightarrow> error + string"
  existsSync :: "string \<Rightarrow> bool"
  getFreeRDP :: "error + string option"

record MemoryInfo =
  totalGB :: number
  availableGB :: number

definition roundedGB :: "number \<Rightarrow> number" where
  \<comment> \<open>\<open>Math.round(kB / 1024 / 1024 * 100) / 100\<close>; \<open>Math.round\<close> rounds a half upwards\<close>
  "roundedGB kB =
     (case kB of NaN \<Rightarrow> NaN
      | Num v \<Rightarrow> Num (of_int \<lfloor>v / 1024 / 1024 * 100 + 1 / 2\<rfloor> / 100))"

definition memLineGB :: "string \<Rightarrow> number" where
  \<comment> \<open>\<open>parseInt(line.split(/\s+/)[1])\<close>, scaled; a missing entry 1 is \<open>undefined\<close>, which parses to NaN\<close>
  "memLineGB line =
     roundedGB (case splitRegex line (Plus Space) of
                  _ # x # _ \<Rightarrow> parseInt x None
                | _ \<Rightarrow> NaN)"

definition getMemoryInfo :: "host \<Rightarrow> error + MemoryInfo" where
  "getMemoryInfo h =
     (case readFileSync h ''/proc/meminfo'' of
        Inl e \<Rightarrow> Inl e
      | Inr memInfo \<Rightarrow>
          (let memoryInfo = \<lparr>totalGB = Num 0, availableGB = Num 0\<rparr>;
               totalMemLine = find (\<lambda>line. startsWith line ''MemTotal'')
                                (splitChar CHR 0x0A memInfo);
               availableMemLine = find (\<lambda>line. startsWith line ''MemAvailable'')
                                    (splitChar CHR 0x0A memInfo);
               memoryInfo1 = (case totalMemLine of
                                Some l \<Rightarrow> if l \<noteq> [] then memoryInfo\<lparr>totalGB := memLineGB l\<rparr>
                                          else memoryInfo
                              | None \<Rightarrow> memoryInfo);
               memoryInfo2 = (case availableMemLine of
                                Some l \<Rightarrow> if l \<noteq> [] then memoryInfo1\<lparr>availableGB := memLineGB l\<rparr>
                                          else memoryInfo1
                              | None \<Rightarrow> memoryInfo1)
           in Inr memoryInfo2))"

definition lscpuCommand :: string where
  \<open>lscpuCommand = ''lscpu -p | egrep -v "^#" | sort -u -t, -k 2,4 | wc -l''\<close>

definition getSpecs :: "host \<Rightarrow> shell \<Rightarrow> state \<Rightarrow> Specs \<times> state" where
  "getSpecs h sh s =
     (let specs = defaultSpecs;
          (res, s1) = execAsync sh lscpuCommand s;
          specs1 = (case res of
                      Inr out \<Rightarrow> specs\<lparr>cpuCores := parseInt (trim (stdout out)) (Some 10)\<rparr>
                    | Inl e \<Rightarrow> specs);
          specs2 = (case getMemoryInfo h of
                      Inr memoryInfo \<Rightarrow> specs1\<lparr>ramGB := totalGB memoryInfo\<rparr>
                    | Inl e \<Rightarrow> specs1);
          specs3 = (case readFileSync h ''/proc/cpuinfo'' of
                      Inr cpuInfo \<Rightarrow>
                        if (includes' cpuInfo ''vmx'' \<or> includes' cpuInfo ''svm'')
                           \<and> existsSync h ''/dev/kvm''
                        then specs2\<lparr>kvmEnabled := True\<rparr> else specs2
                    | Inl e \<Rightarrow> specs2);
          (runtime, s2) = detectRuntime sh s1;
          specs4 = specs3\<lparr>dockerInstalled := (runtime \<noteq> None)\<rparr>;
          (runtimeInfo', s3) = getRuntimeInfo sh s2;
          specs5 = (case runtimeInfo' of
                      Some ri \<Rightarrow> specs4\<lparr>dockerComposeInstalled := composeInstalled ri\<rparr>
                    | None \<Rightarrow> specs4\<lparr>dockerComposeInstalled := False\<rparr>);
          (running, s4) = isRuntimeRunning sh s3;
          specs6 = specs5\<lparr>dockerIsRunning := running\<rparr>;
          (inGroup, s5) = isUserInRuntimeGroup sh s4;
          specs7 = specs6\<lparr>dockerIsInUserGroups := inGroup\<rparr>;
          specs8 = (case getFreeRDP h of
                      Inr freeRDPBin \<Rightarrow>
                        specs7\<lparr>freeRDP3Installed :=
                                 (case freeRDPBin of None \<Rightarrow> False | Some b \<Rightarrow> b \<noteq> [])\<rparr>
                    | Inl e \<Rightarrow> specs7);
          (ipt, s6) = execAsync sh ''lsmod | grep ip_tables'' s5;
          specs9 = (case ipt of
                      Inr out \<Rightarrow> specs8\<lparr>ipTablesLoaded := (trim (stdout out) \<noteq> [])\<rparr>
                    | Inl e \<Rightarrow> specs8);
          (nat', s7) = execAsync sh ''lsmod | grep iptable_nat'' s6;
          specs10 = (case nat' of
                       Inr out \<Rightarrow> specs9\<lparr>iptableNatLoaded := (trim (stdout out) \<noteq> [])\<rparr>
                     | Inl e \<Rightarrow> specs9)
      in (specs10, s7))"

section \<open>Calls and runs\<close>

datatype call =
    DetectRuntime | GetRuntimeInfo | GetCommand | ExecCommand string | IsRuntimeRunning
  | IsUserInRuntimeGroup | RequiresGroupMembership | Reset
  | ContainerInspect string string | ContainerStart string | ContainerStop string
  | ContainerPause string | ContainerUnpause string | ContainerRemove string
  | VolumeRemove string | ContainerList "string option" | ComposeUp string
  | ComposeDown string | GetNetworkMode | SatisfiesPrequisites Specs | GetSpecs host

fun step :: "shell \<Rightarrow> call \<Rightarrow> state \<Rightarrow> state" where
  "step sh DetectRuntime s = snd (detectRuntime sh s)"
| "step sh GetRuntimeInfo s = snd (getRuntimeInfo sh s)"
| "step sh GetCommand s = snd (getCommand sh s)"
| "step sh (ExecCommand c) s = snd (execCommand sh c s)"
| "step sh IsRuntimeRunning s = snd (isRuntimeRunning sh s)"
| "step sh IsUserInRuntimeGroup s = snd (isUserInRuntimeGroup sh s)"
| "step sh RequiresGroupMembership s = snd (requiresGroupMembership sh s)"
| "step sh Reset s = reset s"
| "step sh (ContainerInspect n f) s = snd (containerInspect sh n f s)"
| "step sh (ContainerStart n) s = snd (containerStart sh n s)"
| "step sh (ContainerStop n) s = snd (containerStop sh n s)"
| "step sh (ContainerPause n) s = snd (containerPause sh n s)"
| "step sh (ContainerUnpause n) s = snd (containerUnpause sh n s)"
| "step sh (ContainerRemove n) s = snd (containerRemove sh n s)"
| "step sh (VolumeRemove n) s = snd (volumeRemove sh n s)"
| "step sh (ContainerList f) s = snd (containerList sh f s)"
| "step sh (ComposeUp f) s = snd (composeUp sh f s)"
| "step sh (ComposeDown f) s = snd (composeDown sh f s)"
| "step sh GetNetworkMode s = snd (getNetworkMode sh s)"
| "step sh (SatisfiesPrequisites specs) s = snd (satisfiesPrequisites sh specs s)"
| "step sh (GetSpecs h) s = snd (getSpecs h sh s)"

text \<open>
  A run is a sequence of calls, each against the shell of its moment. The states the cache
  can reach are the states \<open>run cs initial\<close>.
\<close>

fun run :: "(shell \<times> call) list \<Rightarrow> state \<Rightarrow> state" where
  "run [] s = s"
| "run ((sh, c) # cs) s = run cs (step sh c s)"


definition cacheAgrees :: "state \<Rightarrow> bool" where
  \<comment> \<open>a cached info is the info of the cached kind\<close>
  "cacheAgrees s =
     (case runtimeInfo s of None \<Rightarrow> True | Some info \<Rightarrow> detectedRuntime s = Some (type info))"

definition keeps :: "state \<Rightarrow> state \<Rightarrow> bool" where
  \<comment> \<open>from \<open>s\<close> to \<open>s'\<close> a cached kind stays and the agreement of the cache stays\<close>
  "keeps s s' =
     ((\<forall>r. detectedRuntime s = Some r \<longrightarrow> detectedRuntime s' = Some r)
      \<and> (cacheAgrees s \<longrightarrow> cacheAgrees s'))"

definition isDigits :: "string \<Rightarrow> bool" where
  \<comment> \<open>a text that \<open>\d+\<close> matches as a whole\<close>
  "isDigits d = (d \<noteq> [] \<and> list_all isDigit d)"

definition semverAt :: "string \<Rightarrow> bool" where
  \<comment> \<open>\<open>u\<close> starts with digits, a dot, digits, a dot and digits\<close>
  "semverAt u =
     (\<exists>d1 d2 d3 t. isDigits d1 \<and> isDigits d2 \<and> isDigits d3
                    \<and> u = d1 @ ''.'' @ d2 @ ''.'' @ d3 @ t)"

definition isWord :: "string \<Rightarrow> bool" where
  \<comment> \<open>a text of at least one character, none of them white space\<close>
  "isWord w = (w \<noteq> [] \<and> list_all (\<lambda>c. \<not> isSpace c) w)"

definition delimited :: "string \<Rightarrow> string \<Rightarrow> bool" where
  \<comment> \<open>\<open>w\<close> stands in \<open>s\<close> between white space or the ends of \<open>s\<close>\<close>
  "delimited w s =
     (\<exists>pre post. s = pre @ w @ post \<and> (pre = [] \<or> isSpace (last pre))
                  \<and> (post = [] \<or> isSpace (hd post)))"

section \<open>Overlapping calls\<close>

text \<open>
  Every method of the class is \<open>async\<close>: a call runs alone up to its next \<open>await\<close>, is
  suspended there, and finds on resumption the static fields as the calls that ran in between
  have left them. The suspensions are the commands (l.34, 52, 80, 85) and, in getRuntimeInfo,
  the \<open>await\<close> of detectRuntime (l.66), which suspends the call also when the kind comes
  from the cache. A task is a suspended call with its locals: the answer of the command it
  waits for and, in getRuntimeInfo, the kind read at l.66 and the info built at l.73-77.
\<close>

type_synonym answer = "error + exec_output"

datatype detecting = AwaitDocker answer | AwaitPodman answer

datatype task =
    Detecting detecting
  | InfoDetecting detecting
  | InfoDetected "RuntimeType option"
  | InfoVersion RuntimeType ContainerRuntimeInfo answer
  | InfoCompose RuntimeType ContainerRuntimeInfo answer

datatype returned = ReturnedKind "RuntimeType option" | ReturnedInfo "ContainerRuntimeInfo option"

text \<open>detectRuntime up to its first command (l.28-34), and from one answer on (l.35-59).\<close>

definition detectBegin :: "shell \<Rightarrow> state \<Rightarrow> (RuntimeType option + detecting) \<times> state" where
  "detectBegin sh s =
     (case detectedRuntime s of
        Some r \<Rightarrow> (Inl (Some r), s)
      | None \<Rightarrow>
          (case execAsync sh ''docker --version'' s of
             (answer, s1) \<Rightarrow> (Inr (AwaitDocker answer), s1)))"

fun detectResume :: "shell \<Rightarrow> detecting \<Rightarrow> state \<Rightarrow> (RuntimeType option + detecting) \<times> state" where
  "detectResume sh (AwaitDocker (Inr out)) s =
     (if includes' (toLowerCase (stdout out)) ''podman''
      then (Inl (Some Podman), s\<lparr>detectedRuntime := Some Podman\<rparr>)
      else (Inl (Some Docker), s\<lparr>detectedRuntime := Some Docker\<rparr>))"
| "detectResume sh (AwaitDocker (Inl e)) s =
     (case execAsync sh ''podman --version'' s of
        (answer, s1) \<Rightarrow> (Inr (AwaitPodman answer), s1))"
| "detectResume sh (AwaitPodman (Inr out)) s =
     (Inl (Some Podman), s\<lparr>detectedRuntime := Some Podman\<rparr>)"
| "detectResume sh (AwaitPodman (Inl e)) s = (Inl None, s)"

text \<open>
  The two calls up to their first suspension, and \<open>resume\<close>, which runs a task up to its
  next suspension or to its return: for getRuntimeInfo the guard and the version command
  (l.67-80), the compose command (l.81-85), and the rest with the write of l.98 (l.86-99).
\<close>

definition callDetectRuntime :: "shell \<Rightarrow> state \<Rightarrow> (returned + task) \<times> state" where
  "callDetectRuntime sh s =
     (case detectBegin sh s of
        (Inl runtime, s1) \<Rightarrow> (Inl (ReturnedKind runtime), s1)
      | (Inr d, s1) \<Rightarrow> (Inr (Detecting d), s1))"

definition callGetRuntimeInfo :: "shell \<Rightarrow> state \<Rightarrow> (returned + task) \<times> state" where
  "callGetRuntimeInfo sh s =
     (case detectBegin sh s of
        (Inl runtime, s1) \<Rightarrow> (Inr (InfoDetected runtime), s1)
      | (Inr d, s1) \<Rightarrow> (Inr (InfoDetecting d), s1))"

fun resume :: "shell \<Rightarrow> task \<Rightarrow> state \<Rightarrow> (returned + task) \<times> state" where
  "resume sh (Detecting d) s =
     (case detectResume sh d s of
        (Inl runtime, s1) \<Rightarrow> (Inl (ReturnedKind runtime), s1)
      | (Inr d', s1) \<Rightarrow> (Inr (Detecting d'), s1))"
| "resume sh (InfoDetecting d) s =
     (case detectResume sh d s of
        (Inl runtime, s1) \<Rightarrow> (Inr (InfoDetected runtime), s1)
      | (Inr d', s1) \<Rightarrow> (Inr (InfoDetecting d'), s1))"
| "resume sh (InfoDetected None) s = (Inl (ReturnedInfo None), s)"
| "resume sh (InfoDetected (Some runtime)) s =
     (if (case runtimeInfo s of None \<Rightarrow> False | Some ri \<Rightarrow> type ri = runtime)
      then (Inl (ReturnedInfo (runtimeInfo s)), s)
      else
        (let info = \<lparr>type = runtime, version = [], composeInstalled = False,
                     composeVersion = None\<rparr>
         in case execAsync sh (runtimeName runtime @ '' --version'') s of
              (answer, s1) \<Rightarrow> (Inr (InfoVersion runtime info answer), s1)))"
| "resume sh (InfoVersion runtime info (Inl e)) s = (Inl (ReturnedInfo None), s)"
| "resume sh (InfoVersion runtime info (Inr versionOutput)) s =
     (let info1 = info\<lparr>version := trim (stdout versionOutput)\<rparr>
      in case execAsync sh (runtimeName runtime @ '' compose version'') s of
           (answer, s1) \<Rightarrow> (Inr (InfoCompose runtime info1 answer), s1))"
| "resume sh (InfoCompose runtime info1 answer) s =
     (let info2 = (case answer of
                     Inr composeOutput \<Rightarrow> composeCheck (stdout composeOutput) info1
                   | Inl e \<Rightarrow> info1\<lparr>composeInstalled := False\<rparr>)
      in (Inl (ReturnedInfo (Some info2)), s\<lparr>runtimeInfo := Some info2\<rparr>))"

text \<open>A call that no other call overlaps: its task is resumed until it returns.\<close>

fun drive :: "nat \<Rightarrow> shell \<Rightarrow> (returned + task) \<times> state \<Rightarrow> (returned \<times> state) option" where
  "drive n sh (Inl v, s) = Some (v, s)"
| "drive 0 sh (Inr t, s) = None"
| "drive (Suc n) sh (Inr t, s) = drive n sh (resume sh t s)"

text \<open>
  The fields are written by detectRuntime (l.39, 44, 53), getRuntimeInfo (l.98) and reset
  (l.171-172) only. Every other method reads and writes them through its calls of
  detectRuntime and getRuntimeInfo and issues commands besides, so what overlapping calls of
  any method do to the fields is a sequence of the events below: a call of detectRuntime,
  of getRuntimeInfo or of reset, the resumption of a suspended task, a command issued by
  another method, and a whole call of any method that nothing overlaps. \<open>held\<close> is a
  ghost log: after each event the kind in the field \<open>detectedRuntime\<close>, if there is one,
  is appended, so the log holds every kind that the field has held.
\<close>

record system =
  cache :: state
  suspended :: "task list"
  held :: "RuntimeType list"

datatype event =
    CallDetectRuntime | CallGetRuntimeInfo | CallReset | Resume nat | Issue string | Whole call

definition launch :: "(returned + task) \<times> state \<Rightarrow> system \<Rightarrow> system" where
  "launch rs \<sigma> =
     (case rs of
        (Inl v, s1) \<Rightarrow> \<sigma>\<lparr>cache := s1\<rparr>
      | (Inr t, s1) \<Rightarrow> \<sigma>\<lparr>cache := s1, suspended := suspended \<sigma> @ [t]\<rparr>)"

definition logKind :: "system \<Rightarrow> system" where
  "logKind \<sigma> =
     \<sigma>\<lparr>held := held \<sigma> @ (case detectedRuntime (cache \<sigma>) of None \<Rightarrow> [] | Some k \<Rightarrow> [k])\<rparr>"

fun act :: "shell \<Rightarrow> event \<Rightarrow> system \<Rightarrow> system" where
  "act sh CallDetectRuntime \<sigma> = launch (callDetectRuntime sh (cache \<sigma>)) \<sigma>"
| "act sh CallGetRuntimeInfo \<sigma> = launch (callGetRuntimeInfo sh (cache \<sigma>)) \<sigma>"
| "act sh CallReset \<sigma> = \<sigma>\<lparr>cache := reset (cache \<sigma>)\<rparr>"
| "act sh (Issue cmd) \<sigma> = \<sigma>\<lparr>cache := snd (execAsync sh cmd (cache \<sigma>))\<rparr>"
| "act sh (Whole c) \<sigma> = \<sigma>\<lparr>cache := step sh c (cache \<sigma>)\<rparr>"
| "act sh (Resume i) \<sigma> =
     (if i < length (suspended \<sigma>) then
        (case resume sh (suspended \<sigma> ! i) (cache \<sigma>) of
           (Inl v, s1) \<Rightarrow>
             \<sigma>\<lparr>cache := s1,
               suspended := take i (suspended \<sigma>) @ drop (Suc i) (suspended \<sigma>)\<rparr>
         | (Inr t, s1) \<Rightarrow> \<sigma>\<lparr>cache := s1, suspended := (suspended \<sigma>)[i := t]\<rparr>)
      else \<sigma>)"

definition stepI :: "shell \<Rightarrow> event \<Rightarrow> system \<Rightarrow> system" where
  "stepI sh e \<sigma> = logKind (act sh e \<sigma>)"

fun runI :: "(shell \<times> event) list \<Rightarrow> system \<Rightarrow> system" where
  "runI [] \<sigma> = \<sigma>"
| "runI ((sh, e) # es) \<sigma> = runI es (stepI sh e \<sigma>)"

definition initialSystem :: system where
  "initialSystem = \<lparr>cache = initial, suspended = [], held = []\<rparr>"

text \<open>The states overlapping calls can reach are the states \<open>runI es initialSystem\<close>.\<close>

text \<open>
  The kinds a task carries in its locals, the kinds present in a system (in the two fields
  and in the suspended tasks), and the growth of the fields by a call that nothing overlaps:
  a cached kind stays, and the cached info stays or is one of the cached kind.
\<close>

fun taskKinds :: "task \<Rightarrow> RuntimeType set" where
  "taskKinds (Detecting d) = {}"
| "taskKinds (InfoDetecting d) = {}"
| "taskKinds (InfoDetected runtime) = set_option runtime"
| "taskKinds (InfoVersion runtime info answer) = {runtime, type info}"
| "taskKinds (InfoCompose runtime info answer) = {runtime, type info}"

definition kindsOf :: "system \<Rightarrow> RuntimeType set" where
  "kindsOf \<sigma> =
     set_option (detectedRuntime (cache \<sigma>))
     \<union> type ` set_option (runtimeInfo (cache \<sigma>))
     \<union> \<Union> (taskKinds ` set (suspended \<sigma>))"

definition grows :: "state \<Rightarrow> state \<Rightarrow> bool" where
  "grows s s' =
     ((\<forall>r. detectedRuntime s = Some r \<longrightarrow> detectedRuntime s' = Some r)
      \<and> (runtimeInfo s' = runtimeInfo s
           \<or> (\<exists>info. runtimeInfo s' = Some info \<and> detectedRuntime s' = Some (type info))))"

section \<open>Example hosts\<close>

definition answers :: "(string \<times> string) list \<Rightarrow> shell" where
  \<comment> \<open>a host that answers the commands of a table, always the same way, and rejects the rest\<close>
  "answers table hist cmd =
     (case map_of table cmd of
        None \<Rightarrow> Inl ExecError
      | Some out \<Rightarrow> Inr \<lparr>stdout = out, stderr = []\<rparr>)"

definition dockerHost :: shell where
  "dockerHost = answers
     [(''docker --version'', ''Docker version 24.0.5, build ced0996\<newline>''),
      (''docker compose version'', ''Docker Compose version v2.5.1''),
      (''docker ps'', ''CONTAINER ID   IMAGE\<newline>''),
      (''id -Gn'', ''alice wheel docker\<newline>''),
      (lscpuCommand, ''4\<newline>''),
      (''lsmod | grep ip_tables'', ''ip_tables 32768 0\<newline>''),
      (''lsmod | grep iptable_nat'', ''iptable_nat 16384 1\<newline>'')]"

definition shimHost :: shell where
  \<comment> \<open>podman with the podman-docker package: \<open>docker\<close> is podman\<close>
  "shimHost = answers
     [(''docker --version'', ''podman version 4.4.1\<newline>''),
      (''podman --version'', ''podman version 4.4.1\<newline>''),
      (''podman compose version'',
         ''podman-compose version 1.0.6, podman version 4.4.1\<newline>''),
      (''id -Gn'', ''alice wheel\<newline>'')]"

definition podmanHost :: shell where
  \<comment> \<open>podman 3.4.2 alone, no \<open>docker\<close> command\<close>
  "podmanHost = answers
     [(''podman --version'', ''podman version 3.4.2\<newline>''),
      (''podman compose version'', ''podman-compose version 1.0.3\<newline>'')]"

definition noEngineHost :: shell where
  "noEngineHost = answers []"

definition lateHost :: shell where
  \<comment> \<open>docker appears on the host once two commands have been tried in vain\<close>
  "lateHost hist cmd =
     (if 2 \<le> length hist then dockerHost hist cmd else Inl ExecError)"

definition flakyHost :: shell where
  \<comment> \<open>the host answers its first command as \<open>dockerHost\<close> does and rejects all later ones\<close>
  "flakyHost hist cmd = (if hist = [] then dockerHost hist cmd else Inl ExecError)"

definition oldComposeHost :: shell where
  \<comment> \<open>docker with the compose of the 1.x line\<close>
  "oldComposeHost = answers
     [(''docker --version'', ''Docker version 20.10.7\<newline>''),
      (''docker compose version'', ''1.29.0''),
      (''id -Gn'', ''alice wheel\<newline>'')]"

definition bareDockerHost :: shell where
  \<comment> \<open>a host where \<open>docker --version\<close> is the only command that succeeds\<close>
  "bareDockerHost = answers [(''docker --version'', ''Docker version 24.0.5\<newline>'')]"

definition deadHost :: host where
  \<comment> \<open>no file can be read, nothing exists, the locator throws\<close>
  "deadHost = \<lparr>readFileSync = (\<lambda>p. Inl ReadError), existsSync = (\<lambda>p. False),
               getFreeRDP = Inl LocatorError\<rparr>"

definition exampleSpecs :: "bool \<Rightarrow> Specs" where
  \<comment> \<open>every signal satisfied, 4 GB, 2 cores; the group membership as given\<close>
  "exampleSpecs inGroup =
     \<lparr>cpuCores = Num 2, ramGB = Num 4, kvmEnabled = True, dockerInstalled = True,
      dockerComposeInstalled = True, dockerIsRunning = True, dockerIsInUserGroups = inGroup,
      freeRDP3Installed = True, ipTablesLoaded = True, iptableNatLoaded = True\<rparr>"

definition detected :: "RuntimeType \<Rightarrow> state" where
  \<comment> \<open>the cache after a detection of the given kind, before any info was assembled\<close>
  "detected r = \<lparr>detectedRuntime = Some r, runtimeInfo = None, issued = []\<rparr>"

text \<open>
  A call of getRuntimeInfo on a docker host is suspended at its compose command when reset
  is called; it is resumed, and then, docker having been replaced by the podman-docker
  package, detectRuntime is called.
\<close>

definition overlapTrace :: "(shell \<times> event) list" where
  "overlapTrace =
     [(dockerHost, CallGetRuntimeInfo), (dockerHost, Resume 0), (dockerHost, Resume 0),
      (dockerHost, Resume 0), (dockerHost, CallReset), (dockerHost, Resume 0),
      (shimHost, CallDetectRuntime), (shimHost, Resume 0)]"

text \<open>Two calls of getRuntimeInfo on a docker host, resumed in turn.\<close>

definition twoCallers :: "(shell \<times> event) list" where
  "twoCallers =
     [(dockerHost, CallGetRuntimeInfo), (dockerHost, CallGetRuntimeInfo),
      (dockerHost, Resume 0), (dockerHost, Resume 1), (dockerHost, Resume 0),
      (dockerHost, Resume 1), (dockerHost, Resume 0), (dockerHost, Resume 1),
      (dockerHost, Resume 0), (dockerHost, Resume 0)]"

section \<open>Facts about the library functions\<close>

lemmas rmatch_Plus = rmatch.simps(7)

declare rmatch.simps(7) [simp del]

lemmas js_eval =
  rmatch_Plus toLowerCase_def lowerChar_def char_of_def bit_Suc_0_iff trim_def isSpace_def isDigit_def
  matchRegex_def replaceRegex_def regexExec_def matchAt_def splitRegex_def
  parseInt_def parseDigits_def digitsValue_def digitVal_def isRadixDigit_def
  stripHexPrefix_def geNum_def

lemmas host_eval =
  getRuntimeInfo_def detectRuntime_def execAsync_def answers_def initial_def
  composeCheck_def composePattern_def Let_def

lemma startsWith_map:
  "startsWith s p \<Longrightarrow> startsWith (map f s) (map f p)"
  by (induction s p rule: startsWith.induct) auto

lemma includes_map:
  "includes' s p \<Longrightarrow> includes' (map f s) (map f p)"
proof (induction s)
  case Nil
  then show ?case by simp
next
  case (Cons c cs)
  then show ?case using startsWith_map [of "c # cs" p f] by auto
qed

lemma lower_podman: "map lowerChar ''podman'' = ''podman''"
  by (simp add: lowerChar_def)

lemma includes_lower_podman:
  "includes' s ''podman'' \<Longrightarrow> includes' (toLowerCase s) ''podman''"
proof -
  assume "includes' s ''podman''"
  then have "includes' (map lowerChar s) (map lowerChar ''podman'')"
    by (rule includes_map)
  then show ?thesis
    by (simp only: lower_podman toLowerCase_def)
qed

subsection \<open>The helpers against the list library\<close>

lemma startsWith_prefix: "startsWith s p \<longleftrightarrow> prefix p s"
  by (induction s p rule: startsWith.induct) auto

lemma includes_sublist: "includes' s sub \<longleftrightarrow> sublist sub s"
proof (induction s)
  case Nil
  show ?case by auto
next
  case (Cons c cs)
  then show ?case
    by (simp add: startsWith_prefix sublist_Cons_right del: startsWith.simps)
qed

lemma rmatch_Plus_Space_Nil [simp]: "rmatch (Plus Space) [] = []"
  by (simp add: rmatch_Plus)

lemma rmatch_Plus_Space_Cons:
  "rmatch (Plus Space) (c # cs) = (if isSpace c then rmatch (Plus Space) cs @ [cs] else [])"
  by (simp add: rmatch_Plus [of Space "c # cs"])

lemma rmatch_Plus_Space_first:
  "rmatch (Plus Space) (c # cs) =
     (if isSpace c then dropWhile isSpace cs # tl (rmatch (Plus Space) (c # cs)) else [])"
proof (induction cs arbitrary: c)
  case Nil
  show ?case by (simp add: rmatch_Plus_Space_Cons)
next
  case (Cons d ds)
  show ?case
  proof (cases "isSpace c")
    case False
    then show ?thesis by (simp add: rmatch_Plus_Space_Cons)
  next
    case True
    show ?thesis
    proof (cases "isSpace d")
      case False
      with True show ?thesis by (simp add: rmatch_Plus_Space_Cons)
    next
      case d: True
      have "rmatch (Plus Space) (d # ds) = dropWhile isSpace ds # tl (rmatch (Plus Space) (d # ds))"
        using Cons [of d] d by simp
      then obtain rest where r: "rmatch (Plus Space) (d # ds) = dropWhile isSpace ds # rest"
        by blast
      show ?thesis
        using True d by (simp add: rmatch_Plus_Space_Cons [of c] r)
    qed
  qed
qed

lemma matchAt_Plus_Space:
  "matchAt (Plus Space) (c # cs) =
     (if isSpace c
      then Some (c # takeWhile isSpace cs, dropWhile isSpace cs)
      else None)"
proof (cases "isSpace c")
  case False
  then show ?thesis by (simp add: matchAt_def rmatch_Plus_Space_Cons)
next
  case True
  obtain rest where r: "rmatch (Plus Space) (c # cs) = dropWhile isSpace cs # rest"
    using rmatch_Plus_Space_first [of c cs] True by auto
  have "length cs - length (dropWhile isSpace cs) = length (takeWhile isSpace cs)"
    by (metis add_diff_cancel_right' length_append takeWhile_dropWhile_id)
  then have "Suc (length cs) - length (dropWhile isSpace cs)
               = Suc (length (takeWhile isSpace cs))"
    using length_dropWhile_le [of isSpace cs] by simp
  then have "take (Suc (length cs) - length (dropWhile isSpace cs)) (c # cs)
               = c # take (length (takeWhile isSpace cs)) cs"
    by simp
  then have "take (Suc (length cs) - length (dropWhile isSpace cs)) (c # cs)
               = c # takeWhile isSpace cs"
    using takeWhile_eq_take [of isSpace cs] by simp
  then show ?thesis using True by (simp add: matchAt_def r)
qed

lemma splitLoop_Space:
  "splitLoop (Plus Space) piece (c # cs) =
     (if isSpace c then piece # splitLoop (Plus Space) [] (dropWhile isSpace cs)
      else splitLoop (Plus Space) (piece @ [c]) cs)"
  by (simp add: matchAt_Plus_Space)

subsection \<open>Splitting at white space\<close>

lemma dropWhile_before_word:
  assumes "isWord w"
  shows "\<exists>pre3. dropWhile isSpace (pre2 @ w @ post) = pre3 @ w @ post
               \<and> (pre3 = [] \<or> (pre2 \<noteq> [] \<and> last pre3 = last pre2))"
proof (induction pre2)
  case Nil
  from assms obtain x xs where "w = x # xs" "\<not> isSpace x"
    by (cases w) (auto simp add: isWord_def)
  then have "dropWhile isSpace ([] @ w @ post) = [] @ w @ post" by simp
  then show ?case by blast
next
  case (Cons x xs)
  show ?case
  proof (cases "isSpace x")
    case False
    then have "dropWhile isSpace ((x # xs) @ w @ post) = (x # xs) @ w @ post" by simp
    then show ?thesis by blast
  next
    case True
    from Cons obtain pre3 where p: "dropWhile isSpace (xs @ w @ post) = pre3 @ w @ post"
      and l: "pre3 = [] \<or> (xs \<noteq> [] \<and> last pre3 = last xs)" by blast
    from True p have "dropWhile isSpace ((x # xs) @ w @ post) = pre3 @ w @ post" by simp
    moreover from l have "pre3 = [] \<or> (x # xs \<noteq> [] \<and> last pre3 = last (x # xs))" by auto
    ultimately show ?thesis by blast
  qed
qed

lemma delimited_after_space:
  assumes w: "isWord w" and piece: "list_all (\<lambda>c. \<not> isSpace c) piece" and c: "isSpace c"
  shows "delimited w (piece @ c # cs) \<longleftrightarrow> w = piece \<or> delimited w (dropWhile isSpace cs)"
proof
  assume "delimited w (piece @ c # cs)"
  then obtain pre post where eq: "piece @ c # cs = pre @ w @ post"
    and pre: "pre = [] \<or> isSpace (last pre)" and post: "post = [] \<or> isSpace (hd post)"
    by (auto simp add: delimited_def)
  show "w = piece \<or> delimited w (dropWhile isSpace cs)"
  proof (cases "length pre \<le> length piece")
    case True
    then have pp: "prefix pre piece"
      using eq by (metis append_eq_append_conv_if prefixI take_is_prefix)
    have "pre = []"
    proof (rule ccontr)
      assume ne: "pre \<noteq> []"
      with pre have "isSpace (last pre)" by simp
      moreover from pp ne have "last pre \<in> set piece"
        by (metis last_in_set prefixE set_append UnI1)
      ultimately show False using piece by (simp add: list_all_iff)
    qed
    with eq have e: "piece @ c # cs = w @ post" by simp
    have "\<not> length piece < length w"
    proof
      assume "length piece < length w"
      with e have "w ! length piece = c"
        by (metis nth_append nth_append_length)
      moreover from \<open>length piece < length w\<close> have "w ! length piece \<in> set w" by simp
      ultimately show False using w c by (auto simp add: isWord_def list_all_iff)
    qed
    then have "length w \<le> length piece" by simp
    then obtain r where r: "piece = w @ r"
      using e by (metis append_eq_append_conv_if append_take_drop_id)
    with e have po: "post = r @ c # cs" by simp
    have "r = []"
    proof (rule ccontr)
      assume "r \<noteq> []"
      with po post have "isSpace (hd r)" by (cases r) auto
      moreover from \<open>r \<noteq> []\<close> r have "hd r \<in> set piece" by (cases r) auto
      ultimately show False using piece by (simp add: list_all_iff)
    qed
    with r show ?thesis by simp
  next
    case False
    then have "length (piece @ [c]) \<le> length pre" by simp
    then obtain pre2 where p2: "pre = (piece @ [c]) @ pre2"
      using eq by (metis append_eq_append_conv_if append_take_drop_id append_Cons append_Nil append_assoc)
    with eq have cs: "cs = pre2 @ w @ post" by simp
    from dropWhile_before_word [OF w, of pre2 post] obtain pre3 where
      d: "dropWhile isSpace (pre2 @ w @ post) = pre3 @ w @ post"
      and l: "pre3 = [] \<or> (pre2 \<noteq> [] \<and> last pre3 = last pre2)" by blast
    have "pre3 = [] \<or> isSpace (last pre3)"
    proof (cases "pre3 = []")
      case True
      then show ?thesis by simp
    next
      case False
      with l have "pre2 \<noteq> []" "last pre3 = last pre2" by auto
      with p2 pre show ?thesis by simp
    qed
    with d cs post have "delimited w (dropWhile isSpace cs)"
      by (auto simp add: delimited_def)
    then show ?thesis by simp
  qed
next
  assume "w = piece \<or> delimited w (dropWhile isSpace cs)"
  then show "delimited w (piece @ c # cs)"
  proof
    assume "w = piece"
    then have "piece @ c # cs = [] @ w @ (c # cs)" by simp
    with c show ?thesis unfolding delimited_def by (metis list.sel(1))
  next
    assume "delimited w (dropWhile isSpace cs)"
    then obtain pre post where eq: "dropWhile isSpace cs = pre @ w @ post"
      and pre: "pre = [] \<or> isSpace (last pre)" and post: "post = [] \<or> isSpace (hd post)"
      by (auto simp add: delimited_def)
    let ?pre = "piece @ c # takeWhile isSpace cs @ pre"
    have "cs = takeWhile isSpace cs @ dropWhile isSpace cs" by simp
    with eq have "piece @ c # cs = ?pre @ w @ post" by (metis append.assoc append_Cons)
    moreover have "isSpace (last ?pre)"
    proof (cases "pre = []")
      case False
      with pre show ?thesis by simp
    next
      case True
      have "last (c # takeWhile isSpace cs) \<in> set (c # takeWhile isSpace cs)"
        by (rule last_in_set) simp
      then have "isSpace (last (c # takeWhile isSpace cs))"
        using c by (auto dest: set_takeWhileD)
      with True show ?thesis by simp
    qed
    ultimately show ?thesis using post unfolding delimited_def by blast
  qed
qed

lemma delimited_no_space:
  assumes "list_all (\<lambda>c. \<not> isSpace c) piece"
  shows "delimited w piece \<longleftrightarrow> w = piece"
proof
  assume "delimited w piece"
  then obtain pre post where eq: "piece = pre @ w @ post"
    and pre: "pre = [] \<or> isSpace (last pre)" and post: "post = [] \<or> isSpace (hd post)"
    by (auto simp add: delimited_def)
  have "pre = []"
  proof (rule ccontr)
    assume "pre \<noteq> []"
    with pre eq have "isSpace (last pre)" "last pre \<in> set piece" by auto
    then show False using assms by (simp add: list_all_iff)
  qed
  moreover have "post = []"
  proof (rule ccontr)
    assume "post \<noteq> []"
    with post eq have "isSpace (hd post)" "hd post \<in> set piece" by (cases post; auto)+
    then show False using assms by (simp add: list_all_iff)
  qed
  ultimately show "w = piece" using eq by simp
next
  assume "w = piece"
  then have "piece = [] @ w @ []" by simp
  then show "delimited w piece" unfolding delimited_def by blast
qed

lemma splitLoop_Space_member:
  assumes "isWord w"
  shows "list_all (\<lambda>c. \<not> isSpace c) piece \<Longrightarrow>
         w \<in> set (splitLoop (Plus Space) piece s) \<longleftrightarrow> delimited w (piece @ s)"
proof (induction s arbitrary: piece rule: length_induct)
  case (1 s)
  show ?case
  proof (cases s)
    case Nil
    then show ?thesis using delimited_no_space [OF "1.prems", of w] by auto
  next
    case (Cons c cs)
    show ?thesis
    proof (cases "isSpace c")
      case False
      with "1.prems" have p: "list_all (\<lambda>c. \<not> isSpace c) (piece @ [c])" by simp
      have "w \<in> set (splitLoop (Plus Space) (piece @ [c]) cs)
              \<longleftrightarrow> delimited w ((piece @ [c]) @ cs)"
        using "1.IH" Cons p by simp
      with False Cons show ?thesis by (simp add: splitLoop_Space del: splitLoop.simps(2))
    next
      case True
      have "length (dropWhile isSpace cs) < length s"
        using Cons length_dropWhile_le [of isSpace cs] by simp
      then have "w \<in> set (splitLoop (Plus Space) [] (dropWhile isSpace cs))
              \<longleftrightarrow> delimited w ([] @ dropWhile isSpace cs)"
        using "1.IH" by simp
      with True Cons delimited_after_space [OF assms "1.prems" True, of cs]
      show ?thesis by (auto simp add: splitLoop_Space simp del: splitLoop.simps(2))
    qed
  qed
qed

lemma split_Space_member:
  assumes "isWord w"
  shows "w \<in> set (splitRegex out (Plus Space)) \<longleftrightarrow> delimited w out"
proof (cases out)
  case Nil
  have "\<not> delimited w []"
    using assms by (auto simp add: delimited_def isWord_def)
  moreover have "w \<noteq> []" using assms by (simp add: isWord_def)
  ultimately show ?thesis using Nil by (simp add: splitRegex_def matchAt_def)
next
  case (Cons c cs)
  then show ?thesis
    using splitLoop_Space_member [OF assms, of "[]" out] by (simp add: splitRegex_def)
qed

lemma isWord_docker: "isWord ''docker''"
  by (simp add: isWord_def isSpace_def)

section \<open>Detection\<close>

lemma execAsync_simps [simp]:
  "detectedRuntime (snd (execAsync sh cmd s)) = detectedRuntime s"
  "runtimeInfo (snd (execAsync sh cmd s)) = runtimeInfo s"
  "issued (snd (execAsync sh cmd s)) = issued s @ [cmd]"
  "fst (execAsync sh cmd s) = sh (issued s) cmd"
  by (simp_all add: execAsync_def)

lemma detectRuntime_cached:
  "detectedRuntime s = Some r \<Longrightarrow> detectRuntime sh s = (Some r, s)"
  by (simp add: detectRuntime_def)

lemma detectRuntime_stores:
  "detectedRuntime (snd (detectRuntime sh s)) = fst (detectRuntime sh s)"
  by (simp add: detectRuntime_def execAsync_def split: option.splits sum.splits)

lemma detectRuntime_info [simp]:
  "runtimeInfo (snd (detectRuntime sh s)) = runtimeInfo s"
  by (simp add: detectRuntime_def execAsync_def split: option.splits sum.splits)

text \<open>
  C1. When the cache is empty and \<open>docker --version\<close> succeeds, detectRuntime returns
  podman if the output mentions podman (in any letter case, as the code lowers the output
  first; in particular when it contains the word as it is written), and docker otherwise.
\<close>

theorem detectRuntime_disambiguates:
  assumes "detectedRuntime s = None"
    and "sh (issued s) ''docker --version'' = Inr out"
  shows "fst (detectRuntime sh s) =
           (if sublist ''podman'' (toLowerCase (stdout out)) then Some Podman else Some Docker)
         \<and> (sublist ''podman'' (stdout out) \<longrightarrow> fst (detectRuntime sh s) = Some Podman)"
  using assms includes_lower_podman [of "stdout out"]
  by (simp add: detectRuntime_def execAsync_def includes_sublist)

theorem detectRuntime_disambiguates_witness:
  "detectedRuntime initial = None
   \<and> shimHost (issued initial) ''docker --version''
       = Inr \<lparr>stdout = ''podman version 4.4.1\<newline>'', stderr = []\<rparr>
   \<and> includes' ''podman version 4.4.1\<newline>'' ''podman''
   \<and> fst (detectRuntime shimHost initial) = Some Podman
   \<and> dockerHost (issued initial) ''docker --version''
       = Inr \<lparr>stdout = ''Docker version 24.0.5, build ced0996\<newline>'', stderr = []\<rparr>
   \<and> fst (detectRuntime dockerHost initial) = Some Docker"
proof -
  have e: "detectedRuntime initial = None"
    by (simp add: initial_def)
  have p: "shimHost (issued initial) ''docker --version''
             = Inr \<lparr>stdout = ''podman version 4.4.1\<newline>'', stderr = []\<rparr>"
    by (simp add: shimHost_def answers_def)
  have d: "dockerHost (issued initial) ''docker --version''
             = Inr \<lparr>stdout = ''Docker version 24.0.5, build ced0996\<newline>'', stderr = []\<rparr>"
    by (simp add: dockerHost_def answers_def)
  show ?thesis
    using e p d detectRuntime_disambiguates [where sh = shimHost, OF e p]
      detectRuntime_disambiguates [where sh = dockerHost, OF e d]
    by (simp add: js_eval includes_sublist [symmetric])
qed


section \<open>The cache\<close>

lemma composeCheck_type [simp]: "type (composeCheck out info) = type info"
  by (simp add: composeCheck_def Let_def split: option.splits)

lemma composeCheck_version [simp]: "version (composeCheck out info) = version info"
  by (simp add: composeCheck_def Let_def split: option.splits)

lemma getRuntimeInfo_kind [simp]:
  "detectedRuntime (snd (getRuntimeInfo sh s)) = fst (detectRuntime sh s)"
  using detectRuntime_stores [of sh s]
  by (cases "detectRuntime sh s")
     (simp add: getRuntimeInfo_def Let_def split_def split: option.splits sum.splits)

lemma getRuntimeInfo_served:
  "getRuntimeInfo sh s = (Some info, s') \<Longrightarrow> fst (detectRuntime sh s) = Some (type info)"
  by (cases "detectRuntime sh s")
     (auto simp add: getRuntimeInfo_def Let_def split_def split: option.splits sum.splits if_splits)

lemma getRuntimeInfo_cache:
  "runtimeInfo (snd (getRuntimeInfo sh s)) = runtimeInfo s
   \<or> (\<exists>info. runtimeInfo (snd (getRuntimeInfo sh s)) = Some info
              \<and> fst (detectRuntime sh s) = Some (type info))"
  using detectRuntime_info [of sh s]
  by (cases "detectRuntime sh s")
     (auto simp add: getRuntimeInfo_def Let_def split_def split: option.splits sum.splits if_splits)

lemma cacheAgrees_detect: "cacheAgrees s \<Longrightarrow> cacheAgrees (snd (detectRuntime sh s))"
proof (cases "detectedRuntime s")
  case None
  assume "cacheAgrees s"
  with None have "runtimeInfo s = None"
    by (simp add: cacheAgrees_def split: option.splits)
  then show ?thesis by (simp add: cacheAgrees_def)
next
  case (Some r)
  assume "cacheAgrees s"
  then show ?thesis using Some by (simp add: detectRuntime_cached)
qed

lemma cacheAgrees_info: "cacheAgrees s \<Longrightarrow> cacheAgrees (snd (getRuntimeInfo sh s))"
proof -
  assume a: "cacheAgrees s"
  from getRuntimeInfo_cache [of sh s] show ?thesis
  proof
    assume "runtimeInfo (snd (getRuntimeInfo sh s)) = runtimeInfo s"
    then show ?thesis using cacheAgrees_detect [OF a, of sh] detectRuntime_stores [of sh s]
      by (simp add: cacheAgrees_def split: option.splits)
  next
    assume "\<exists>info. runtimeInfo (snd (getRuntimeInfo sh s)) = Some info
              \<and> fst (detectRuntime sh s) = Some (type info)"
    then show ?thesis by (auto simp add: cacheAgrees_def)
  qed
qed

lemma snd_getCommand [simp]: "snd (getCommand sh s) = snd (detectRuntime sh s)"
  by (cases "detectRuntime sh s") (simp add: getCommand_def split: option.splits)

lemma fst_getCommand:
  "fst (getCommand sh s) = (case fst (detectRuntime sh s) of Some r \<Rightarrow> runtimeName r | None \<Rightarrow> ''docker'')"
  by (cases "detectRuntime sh s") (simp add: getCommand_def split: option.splits)

lemma snd_stdoutOf [simp]: "snd (stdoutOf rs) = snd rs"
  by (simp add: stdoutOf_def split: prod.splits sum.splits)

lemma keeps_refl [simp]: "keeps s s"
  by (simp add: keeps_def)

lemma keeps_trans: "keeps s t \<Longrightarrow> keeps t u \<Longrightarrow> keeps s u"
  by (simp add: keeps_def)

lemma keeps_exec: "keeps s t \<Longrightarrow> keeps s (snd (execAsync sh cmd t))"
  by (auto simp add: keeps_def cacheAgrees_def split: option.splits)

lemma keeps_detect: "keeps s t \<Longrightarrow> keeps s (snd (detectRuntime sh t))"
proof (rule keeps_trans)
  show "keeps t (snd (detectRuntime sh t))"
    by (auto simp add: keeps_def detectRuntime_cached cacheAgrees_detect)
qed

lemma keeps_info: "keeps s t \<Longrightarrow> keeps s (snd (getRuntimeInfo sh t))"
proof (rule keeps_trans)
  show "keeps t (snd (getRuntimeInfo sh t))"
    by (auto simp add: keeps_def detectRuntime_cached cacheAgrees_info)
qed

lemma execCommand_state:
  "snd (execCommand sh c s) =
     snd (execAsync sh (replaceRegex c enginePattern (fst (getCommand sh s))) (snd (detectRuntime sh s)))"
  by (simp add: execCommand_def split_def)

lemma isRuntimeRunning_state:
  "snd (isRuntimeRunning sh s) =
     snd (execAsync sh (fst (getCommand sh s) @ '' ps'') (snd (detectRuntime sh s)))"
  by (simp add: isRuntimeRunning_def split_def Let_def split: prod.splits sum.splits)

lemma isUserInRuntimeGroup_state:
  "snd (isUserInRuntimeGroup sh s) =
     (if fst (detectRuntime sh s) = Some Docker
      then snd (execAsync sh ''id -Gn'' (snd (detectRuntime sh s)))
      else snd (detectRuntime sh s))"
  by (cases "detectRuntime sh s")
     (simp add: isUserInRuntimeGroup_def split: prod.splits sum.splits option.splits RuntimeType.splits)

lemma requiresGroupMembership_state [simp]:
  "snd (requiresGroupMembership sh s) = snd (detectRuntime sh s)"
  by (simp add: requiresGroupMembership_def split: prod.splits)

lemma getNetworkMode_state:
  "snd (getNetworkMode sh s) =
     (if fst (detectRuntime sh s) = Some Podman
      then snd (getRuntimeInfo sh (snd (detectRuntime sh s)))
      else snd (detectRuntime sh s))"
  by (cases "detectRuntime sh s")
     (simp add: getNetworkMode_def split: prod.splits sum.splits option.splits RuntimeType.splits)

lemma satisfiesPrequisites_state [simp]:
  "snd (satisfiesPrequisites sh specs s) = snd (detectRuntime sh s)"
  by (simp add: satisfiesPrequisites_def split_def)

lemma getSpecs_state:
  "snd (getSpecs h sh s) =
     snd (execAsync sh ''lsmod | grep iptable_nat''
       (snd (execAsync sh ''lsmod | grep ip_tables''
         (snd (isUserInRuntimeGroup sh
           (snd (isRuntimeRunning sh
             (snd (getRuntimeInfo sh
               (snd (detectRuntime sh
                 (snd (execAsync sh lscpuCommand s)))))))))))))"
  by (simp add: getSpecs_def split_def Let_def)

lemma keeps_step: "c \<noteq> Reset \<Longrightarrow> keeps s (step sh c s)"
proof (cases c)
  case (GetSpecs h)
  then show ?thesis
    by (simp add: getSpecs_state isUserInRuntimeGroup_state isRuntimeRunning_state
          keeps_exec keeps_detect keeps_info)
qed (simp_all add: keeps_exec keeps_detect keeps_info execCommand_state isRuntimeRunning_state
       isUserInRuntimeGroup_state getNetworkMode_state
       containerInspect_def containerStart_def containerStop_def containerPause_def
       containerUnpause_def containerRemove_def volumeRemove_def containerList_def
       composeUp_def composeDown_def split_def Let_def split: prod.splits sum.splits)

lemma keeps_run: "\<forall>(sh, c) \<in> set cs. c \<noteq> Reset \<Longrightarrow> keeps s (run cs s)"
proof (induction cs arbitrary: s)
  case Nil
  show ?case by simp
next
  case (Cons x cs)
  obtain sh c where x: "x = (sh, c)" by (cases x)
  with Cons.prems have "c \<noteq> Reset" and rest: "\<forall>(sh, c) \<in> set cs. c \<noteq> Reset"
    by auto
  then have "keeps s (step sh c s)" by (simp add: keeps_step)
  moreover have "keeps (step sh c s) (run cs (step sh c s))"
    using rest by (rule Cons.IH)
  ultimately show ?case using x by (auto intro: keeps_trans)
qed

lemma cacheAgrees_step: "cacheAgrees s \<Longrightarrow> cacheAgrees (step sh c s)"
proof (cases "c = Reset")
  case True
  then show ?thesis by (simp add: reset_def cacheAgrees_def)
next
  case False
  assume "cacheAgrees s"
  with keeps_step [OF False, of s sh] show ?thesis by (simp add: keeps_def)
qed

lemma cacheAgrees_run: "cacheAgrees s \<Longrightarrow> cacheAgrees (run cs s)"
  by (induction cs arbitrary: s) (auto simp add: cacheAgrees_step)

text \<open>
  C2 (as amended). Once a call of detectRuntime has found an engine, every later call of
  detectRuntime returns the same kind and leaves the state as it is, so it issues no
  command, whatever was called in between except reset, and whatever the host answers by
  then. (A call that found no engine caches nothing.)
\<close>

theorem detectRuntime_cached_after_success:
  assumes "fst (detectRuntime sh s) = Some r"
    and "\<forall>(sh', c) \<in> set cs. c \<noteq> Reset"
  shows "detectRuntime sh2 (run cs (snd (detectRuntime sh s)))
           = (Some r, run cs (snd (detectRuntime sh s)))"
proof -
  have "detectedRuntime (snd (detectRuntime sh s)) = Some r"
    using assms(1) by (simp add: detectRuntime_stores)
  with keeps_run [OF assms(2), of "snd (detectRuntime sh s)"]
  have "detectedRuntime (run cs (snd (detectRuntime sh s))) = Some r"
    by (simp add: keeps_def)
  then show ?thesis by (rule detectRuntime_cached)
qed

theorem detectRuntime_cached_after_success_witness:
  "fst (detectRuntime dockerHost initial) = Some Docker
   \<and> list_all (\<lambda>(sh', c). c \<noteq> Reset) [(dockerHost, GetCommand)]
   \<and> detectRuntime noEngineHost (run [(dockerHost, GetCommand)] (snd (detectRuntime dockerHost initial)))
       = (Some Docker, \<lparr>detectedRuntime = Some Docker, runtimeInfo = None,
                        issued = [''docker --version'']\<rparr>)"
proof -
  have a: "fst (detectRuntime dockerHost initial) = Some Docker"
    by (simp add: detectRuntime_def execAsync_def dockerHost_def answers_def initial_def js_eval)
  have b: "\<forall>(sh', c) \<in> set [(dockerHost, GetCommand)]. c \<noteq> Reset"
    by simp
  have c: "run [(dockerHost, GetCommand)] (snd (detectRuntime dockerHost initial))
           = \<lparr>detectedRuntime = Some Docker, runtimeInfo = None, issued = [''docker --version'']\<rparr>"
    by (simp add: detectRuntime_def execAsync_def dockerHost_def answers_def initial_def js_eval)
  have d: "detectRuntime noEngineHost
             (run [(dockerHost, GetCommand)] (snd (detectRuntime dockerHost initial)))
           = (Some Docker, \<lparr>detectedRuntime = Some Docker, runtimeInfo = None,
                              issued = [''docker --version'']\<rparr>)"
    using detectRuntime_cached_after_success [OF a b, of noEngineHost] by (simp only: c)
  show ?thesis
    using a d by simp
qed

text \<open>
  C2 as stated fails when the first call finds no engine: nothing is cached and the second
  call probes again. On a host without an engine it issues both version commands a second
  time; on a host where docker has appeared meanwhile it also returns another value.
\<close>

theorem detectRuntime_reprobes_counterexample:
  "fst (detectRuntime noEngineHost initial) = None
   \<and> issued (snd (detectRuntime noEngineHost initial))
       = [''docker --version'', ''podman --version'']
   \<and> issued (snd (detectRuntime noEngineHost (snd (detectRuntime noEngineHost initial))))
       = [''docker --version'', ''podman --version'', ''docker --version'', ''podman --version'']
   \<and> fst (detectRuntime lateHost initial) = None
   \<and> issued (snd (detectRuntime lateHost initial)) = [''docker --version'', ''podman --version'']
   \<and> fst (detectRuntime lateHost (snd (detectRuntime lateHost initial))) = Some Docker
   \<and> issued (snd (detectRuntime lateHost (snd (detectRuntime lateHost initial))))
       = [''docker --version'', ''podman --version'', ''docker --version'']"
  by (simp add: detectRuntime_def execAsync_def noEngineHost_def lateHost_def dockerHost_def
        answers_def initial_def js_eval)

subsection \<open>Calls one after the other among the overlapping ones\<close>

text \<open>
  A call of detectRuntime or of getRuntimeInfo whose task is resumed until it returns, with
  nothing in between, does what the function of the call does: it returns after at most two,
  respectively five, resumptions with the same result and the same state. And a run of
  whole calls is a run of the events \<open>Whole\<close>.
\<close>

lemma drive_detectRuntime:
  "drive 2 sh (callDetectRuntime sh s)
     = Some (ReturnedKind (fst (detectRuntime sh s)), snd (detectRuntime sh s))"
proof (cases "detectedRuntime s")
  case (Some r)
  then show ?thesis by (simp add: callDetectRuntime_def detectBegin_def detectRuntime_def)
next
  case None
  show ?thesis
  proof (cases "sh (issued s) ''docker --version''")
    case (Inr out)
    with None show ?thesis
      by (simp add: callDetectRuntime_def detectBegin_def detectRuntime_def execAsync_def
            eval_nat_numeral)
  next
    case (Inl e)
    with None show ?thesis
      by (cases "sh (issued s @ [''docker --version'']) ''podman --version''")
         (simp_all add: callDetectRuntime_def detectBegin_def detectRuntime_def execAsync_def
            eval_nat_numeral)
  qed
qed

lemma drive_more: "drive n sh x = Some y \<Longrightarrow> drive (n + m) sh x = Some y"
  by (induction n sh x rule: drive.induct) simp_all

lemma getRuntimeInfo_after_detect:
  "fst (detectRuntime sh s) = Some k
   \<Longrightarrow> getRuntimeInfo sh s = getRuntimeInfo sh (snd (detectRuntime sh s))"
proof -
  assume k: "fst (detectRuntime sh s) = Some k"
  then have "detectedRuntime (snd (detectRuntime sh s)) = Some k"
    by (simp add: detectRuntime_stores)
  then have "detectRuntime sh (snd (detectRuntime sh s)) = (Some k, snd (detectRuntime sh s))"
    by (rule detectRuntime_cached)
  with k show ?thesis
    by (cases "detectRuntime sh s") (simp add: getRuntimeInfo_def)
qed

lemma drive_InfoDetected:
  assumes "detectedRuntime t = Some r"
  shows "drive 2 sh (resume sh (InfoDetected (Some r)) t)
       = Some (ReturnedInfo (fst (getRuntimeInfo sh t)), snd (getRuntimeInfo sh t))"
proof (cases "case runtimeInfo t of None \<Rightarrow> False | Some ri \<Rightarrow> type ri = r")
  case True
  with assms show ?thesis
    by (simp add: getRuntimeInfo_def detectRuntime_def)
next
  case False
  show ?thesis
  proof (cases "sh (issued t) (runtimeName r @ '' --version'')")
    case (Inl e)
    with False assms show ?thesis
      by (simp add: getRuntimeInfo_def detectRuntime_def execAsync_def Let_def
            eval_nat_numeral)
  next
    case (Inr out)
    with False assms show ?thesis
      by (simp add: getRuntimeInfo_def detectRuntime_def execAsync_def Let_def
            eval_nat_numeral split: sum.splits)
  qed
qed

lemma drive_getRuntimeInfo:
  "drive 5 sh (callGetRuntimeInfo sh s)
     = Some (ReturnedInfo (fst (getRuntimeInfo sh s)), snd (getRuntimeInfo sh s))"
proof (cases "detectedRuntime s")
  case (Some r)
  then have "drive 5 sh (callGetRuntimeInfo sh s) = drive 4 sh (resume sh (InfoDetected (Some r)) s)"
    by (simp add: callGetRuntimeInfo_def detectBegin_def eval_nat_numeral)
  also have "\<dots> = Some (ReturnedInfo (fst (getRuntimeInfo sh s)), snd (getRuntimeInfo sh s))"
    using drive_more [OF drive_InfoDetected [OF Some], of 2 sh] by simp
  finally show ?thesis .
next
  case None
  show ?thesis
  proof (cases "fst (detectRuntime sh s)")
    case absent: None
    then have g: "getRuntimeInfo sh s = (None, snd (detectRuntime sh s))"
      by (cases "detectRuntime sh s") (simp add: getRuntimeInfo_def)
    from None absent show ?thesis
      unfolding g
      by (simp add: callGetRuntimeInfo_def detectBegin_def detectRuntime_def execAsync_def
            eval_nat_numeral split: sum.splits if_splits)
  next
    case (Some k)
    let ?t = "snd (detectRuntime sh s)"
    have t: "detectedRuntime ?t = Some k"
      using Some by (simp add: detectRuntime_stores)
    have "drive 5 sh (callGetRuntimeInfo sh s) = drive 3 sh (resume sh (InfoDetected (Some k)) ?t)
       \<or> drive 5 sh (callGetRuntimeInfo sh s) = drive 2 sh (resume sh (InfoDetected (Some k)) ?t)"
      using None Some
      by (simp add: callGetRuntimeInfo_def detectBegin_def detectRuntime_def execAsync_def
            eval_nat_numeral del: resume.simps(4) split: sum.splits if_splits)
    moreover have "drive 3 sh (resume sh (InfoDetected (Some k)) ?t)
        = Some (ReturnedInfo (fst (getRuntimeInfo sh ?t)), snd (getRuntimeInfo sh ?t))"
      using drive_more [OF drive_InfoDetected [OF t], of 1 sh] by simp
    ultimately have "drive 5 sh (callGetRuntimeInfo sh s)
        = Some (ReturnedInfo (fst (getRuntimeInfo sh ?t)), snd (getRuntimeInfo sh ?t))"
      using drive_InfoDetected [OF t, of sh] by auto
    then show ?thesis
      using getRuntimeInfo_after_detect [OF Some] by simp
  qed
qed

lemma runI_Whole:
  "cache (runI (map (\<lambda>(sh, c). (sh, Whole c)) cs) \<sigma>) = run cs (cache \<sigma>)"
  by (induction cs arbitrary: \<sigma>) (auto simp add: stepI_def logKind_def)

subsection \<open>The kinds in a system\<close>

lemma grows_refl [simp]: "grows s s"
  by (simp add: grows_def)

lemma grows_trans: "grows s t \<Longrightarrow> grows t u \<Longrightarrow> grows s u"
  by (auto simp add: grows_def)

lemma grows_exec: "grows s t \<Longrightarrow> grows s (snd (execAsync sh cmd t))"
  by (simp add: grows_def)

lemma grows_detect: "grows s t \<Longrightarrow> grows s (snd (detectRuntime sh t))"
proof (rule grows_trans)
  show "grows t (snd (detectRuntime sh t))"
    by (simp add: grows_def detectRuntime_cached)
qed

lemma grows_info: "grows s t \<Longrightarrow> grows s (snd (getRuntimeInfo sh t))"
proof (rule grows_trans)
  show "grows t (snd (getRuntimeInfo sh t))"
    using getRuntimeInfo_cache [of sh t]
    by (auto simp add: grows_def detectRuntime_cached)
qed

lemma grows_step: "c \<noteq> Reset \<Longrightarrow> grows s (step sh c s)"
proof (cases c)
  case (GetSpecs h)
  then show ?thesis
    by (simp add: getSpecs_state isUserInRuntimeGroup_state isRuntimeRunning_state
          grows_exec grows_detect grows_info)
qed (simp_all add: grows_exec grows_detect grows_info execCommand_state isRuntimeRunning_state
       isUserInRuntimeGroup_state getNetworkMode_state
       containerInspect_def containerStart_def containerStop_def containerPause_def
       containerUnpause_def containerRemove_def volumeRemove_def containerList_def
       composeUp_def composeDown_def split_def Let_def split: prod.splits sum.splits)

lemma step_info_kinds:
  "type ` set_option (runtimeInfo (step sh c s))
     \<subseteq> type ` set_option (runtimeInfo s) \<union> set_option (detectedRuntime (step sh c s))"
proof (cases "c = Reset")
  case True
  then show ?thesis by (simp add: reset_def)
next
  case False
  then have "grows s (step sh c s)" by (rule grows_step)
  then show ?thesis by (auto simp add: grows_def)
qed

lemma detectBegin_cache:
  "runtimeInfo (snd (detectBegin sh s)) = runtimeInfo s"
  "detectedRuntime (snd (detectBegin sh s)) = detectedRuntime s"
  by (simp_all add: detectBegin_def execAsync_def split: option.splits)

lemma detectBegin_kind:
  "fst (detectBegin sh s) = Inl runtime \<Longrightarrow> runtime = detectedRuntime s"
  by (auto simp add: detectBegin_def execAsync_def split: option.splits)

lemma detectResume_info [simp]:
  "runtimeInfo (snd (detectResume sh d s)) = runtimeInfo s"
  by (induction sh d s rule: detectResume.induct) (simp_all add: execAsync_def)

lemma detectResume_kind:
  "fst (detectResume sh d s) = Inl (Some k)
   \<Longrightarrow> detectedRuntime (snd (detectResume sh d s)) = Some k"
  by (induction sh d s rule: detectResume.induct)
     (auto simp add: execAsync_def split: if_splits)

lemma callDetectRuntime_info [simp]:
  "runtimeInfo (snd (callDetectRuntime sh s)) = runtimeInfo s"
  using detectBegin_cache(1) [of sh s]
  by (cases "detectBegin sh s") (simp add: callDetectRuntime_def split: sum.splits)

lemma callGetRuntimeInfo_info [simp]:
  "runtimeInfo (snd (callGetRuntimeInfo sh s)) = runtimeInfo s"
  using detectBegin_cache(1) [of sh s]
  by (cases "detectBegin sh s") (simp add: callGetRuntimeInfo_def split: sum.splits)

lemma callDetectRuntime_task:
  "fst (callDetectRuntime sh s) = Inr t \<Longrightarrow> taskKinds t = {}"
  by (cases "detectBegin sh s") (auto simp add: callDetectRuntime_def split: sum.splits)

lemma callGetRuntimeInfo_task:
  "fst (callGetRuntimeInfo sh s) = Inr t
   \<Longrightarrow> taskKinds t \<subseteq> set_option (detectedRuntime (snd (callGetRuntimeInfo sh s)))"
  using detectBegin_cache(2) [of sh s] detectBegin_kind [of sh s]
  by (cases "detectBegin sh s") (auto simp add: callGetRuntimeInfo_def split: sum.splits)

lemma resume_info_kinds:
  "type ` set_option (runtimeInfo (snd (resume sh t s)))
     \<subseteq> type ` set_option (runtimeInfo s) \<union> taskKinds t"
proof (induction sh t s rule: resume.induct)
  case (1 sh d s)
  show ?case
    using detectResume_info [of sh d s]
    by (cases "detectResume sh d s") (simp split: sum.splits)
next
  case (2 sh d s)
  show ?case
    using detectResume_info [of sh d s]
    by (cases "detectResume sh d s") (simp split: sum.splits)
qed (auto simp add: Let_def execAsync_def split: sum.splits)

lemma resume_task_kinds:
  "fst (resume sh t s) = Inr t'
   \<Longrightarrow> taskKinds t' \<subseteq> taskKinds t \<union> set_option (detectedRuntime (snd (resume sh t s)))"
proof (induction sh t s rule: resume.induct)
  case (1 sh d s)
  then show ?case
    by (cases "detectResume sh d s") (auto split: sum.splits)
next
  case (2 sh d s)
  then show ?case
    using detectResume_kind [of sh d s]
    by (cases "detectResume sh d s") (auto split: sum.splits)
qed (auto simp add: Let_def execAsync_def split: sum.splits if_splits)

lemma held_act [simp]: "held (act sh e \<sigma>) = held \<sigma>"
  by (cases e) (simp_all add: launch_def split: prod.splits sum.splits)

lemma kindsOf_launch:
  assumes "runtimeInfo (snd rs) = runtimeInfo (cache \<sigma>)"
    and "\<And>t. fst rs = Inr t \<Longrightarrow> taskKinds t \<subseteq> set_option (detectedRuntime (snd rs))"
  shows "kindsOf (launch rs \<sigma>)
           \<subseteq> kindsOf \<sigma> \<union> set_option (detectedRuntime (cache (launch rs \<sigma>)))"
proof (cases rs)
  case (Pair r s1)
  show ?thesis
  proof (cases r)
    case (Inl v)
    with Pair assms(1) show ?thesis
      by (auto simp add: launch_def kindsOf_def)
  next
    case (Inr t)
    with Pair assms(1) assms(2) [of t] show ?thesis
      by (auto simp add: launch_def kindsOf_def)
  qed
qed

lemma kindsOf_resume:
  assumes "i < length (suspended \<sigma>)"
  shows "kindsOf (act sh (Resume i) \<sigma>)
           \<subseteq> kindsOf \<sigma> \<union> set_option (detectedRuntime (cache (act sh (Resume i) \<sigma>)))"
proof -
  let ?t = "suspended \<sigma> ! i"
  have mem: "?t \<in> set (suspended \<sigma>)"
    using assms by simp
  then have own: "taskKinds ?t \<subseteq> kindsOf \<sigma>"
    by (auto simp add: kindsOf_def)
  have info: "type ` set_option (runtimeInfo (snd (resume sh ?t (cache \<sigma>)))) \<subseteq> kindsOf \<sigma>"
    using resume_info_kinds [of sh ?t "cache \<sigma>"] own by (auto simp add: kindsOf_def)
  obtain r s1 where rs: "resume sh ?t (cache \<sigma>) = (r, s1)"
    by (cases "resume sh ?t (cache \<sigma>)")
  show ?thesis
  proof (cases r)
    case (Inl v)
    have "set (take i (suspended \<sigma>) @ drop (Suc i) (suspended \<sigma>)) \<subseteq> set (suspended \<sigma>)"
      using set_take_subset [of i "suspended \<sigma>"] set_drop_subset [of "Suc i" "suspended \<sigma>"]
      by auto
    then have "\<Union> (taskKinds ` set (take i (suspended \<sigma>) @ drop (Suc i) (suspended \<sigma>)))
                 \<subseteq> kindsOf \<sigma>"
      by (auto simp add: kindsOf_def)
    with Inl rs assms info show ?thesis
      by (auto simp add: kindsOf_def)
  next
    case (Inr t')
    have new: "taskKinds t' \<subseteq> kindsOf \<sigma> \<union> set_option (detectedRuntime s1)"
      using resume_task_kinds [of sh ?t "cache \<sigma>" t'] rs Inr own by auto
    have "set ((suspended \<sigma>)[i := t']) \<subseteq> insert t' (set (suspended \<sigma>))"
      by (rule set_update_subset_insert)
    then have "\<Union> (taskKinds ` set ((suspended \<sigma>)[i := t']))
                 \<subseteq> taskKinds t' \<union> \<Union> (taskKinds ` set (suspended \<sigma>))"
      by auto
    then have "\<Union> (taskKinds ` set ((suspended \<sigma>)[i := t']))
                 \<subseteq> kindsOf \<sigma> \<union> set_option (detectedRuntime s1)"
      using new by (auto simp add: kindsOf_def)
    with Inr rs assms info show ?thesis
      by (auto simp add: kindsOf_def)
  qed
qed

lemma kindsOf_act:
  "kindsOf (act sh e \<sigma>) \<subseteq> kindsOf \<sigma> \<union> set_option (detectedRuntime (cache (act sh e \<sigma>)))"
proof (cases e)
  case CallDetectRuntime
  have "taskKinds t \<subseteq> set_option (detectedRuntime (snd (callDetectRuntime sh (cache \<sigma>))))"
    if "fst (callDetectRuntime sh (cache \<sigma>)) = Inr t" for t
    using callDetectRuntime_task [OF that] by simp
  with CallDetectRuntime show ?thesis
    using kindsOf_launch [of "callDetectRuntime sh (cache \<sigma>)" \<sigma>] by simp
next
  case CallGetRuntimeInfo
  then show ?thesis
    using kindsOf_launch [of "callGetRuntimeInfo sh (cache \<sigma>)" \<sigma>]
    by (simp add: callGetRuntimeInfo_task)
next
  case CallReset
  then show ?thesis by (auto simp add: kindsOf_def reset_def)
next
  case (Resume i)
  show ?thesis
  proof (cases "i < length (suspended \<sigma>)")
    case True
    then show ?thesis unfolding Resume by (rule kindsOf_resume)
  next
    case False
    with Resume show ?thesis by auto
  qed
next
  case (Issue cmd)
  then show ?thesis by (auto simp add: kindsOf_def)
next
  case (Whole c)
  then show ?thesis
    using step_info_kinds [of sh c "cache \<sigma>"] by (auto simp add: kindsOf_def)
qed

lemma kindsOf_stepI:
  "kindsOf \<sigma> \<subseteq> set (held \<sigma>) \<Longrightarrow> kindsOf (stepI sh e \<sigma>) \<subseteq> set (held (stepI sh e \<sigma>))"
proof -
  assume a: "kindsOf \<sigma> \<subseteq> set (held \<sigma>)"
  have "kindsOf (stepI sh e \<sigma>) = kindsOf (act sh e \<sigma>)"
    by (simp add: stepI_def logKind_def kindsOf_def)
  moreover have "set (held (stepI sh e \<sigma>))
      = set (held \<sigma>) \<union> set_option (detectedRuntime (cache (act sh e \<sigma>)))"
    by (cases "detectedRuntime (cache (act sh e \<sigma>))") (simp_all add: stepI_def logKind_def)
  ultimately show ?thesis
    using kindsOf_act [of sh e \<sigma>] a by auto
qed

lemma kindsOf_runI:
  "kindsOf \<sigma> \<subseteq> set (held \<sigma>) \<Longrightarrow> kindsOf (runI es \<sigma>) \<subseteq> set (held (runI es \<sigma>))"
proof (induction es arbitrary: \<sigma>)
  case Nil
  then show ?case by simp
next
  case (Cons x es)
  obtain sh e where x: "x = (sh, e)" by (cases x)
  from Cons.prems have "kindsOf (stepI sh e \<sigma>) \<subseteq> set (held (stepI sh e \<sigma>))"
    by (rule kindsOf_stepI)
  then have "kindsOf (runI es (stepI sh e \<sigma>)) \<subseteq> set (held (runI es (stepI sh e \<sigma>)))"
    by (rule Cons.IH)
  with x show ?case by simp
qed

lemma info_kind_was_held:
  "runtimeInfo (cache (runI es initialSystem)) = Some info
   \<Longrightarrow> type info \<in> set (held (runI es initialSystem))"
proof -
  assume i: "runtimeInfo (cache (runI es initialSystem)) = Some info"
  have "kindsOf initialSystem \<subseteq> set (held initialSystem)"
    by (simp add: kindsOf_def initialSystem_def initial_def)
  then have "kindsOf (runI es initialSystem) \<subseteq> set (held (runI es initialSystem))"
    by (rule kindsOf_runI)
  moreover have "type info \<in> kindsOf (runI es initialSystem)"
    using i by (simp add: kindsOf_def)
  ultimately show ?thesis by auto
qed

subsection \<open>The invariant\<close>

lemma getRuntimeInfo_cached_result:
  "getRuntimeInfo sh s = (Some info, s') \<Longrightarrow> runtimeInfo s' = Some info"
  by (cases "detectRuntime sh s")
     (auto simp add: getRuntimeInfo_def Let_def split_def split: option.splits sum.splits if_splits)

lemma resume_InfoDetected_served:
  "resume sh (InfoDetected r) s = (Inl (ReturnedInfo (Some info)), s')
   \<Longrightarrow> r = Some (type info) \<and> runtimeInfo s = Some info \<and> s' = s"
  by (cases r)
     (auto simp add: Let_def execAsync_def split: if_splits option.splits)


lemma dockerHost_info:
  "getRuntimeInfo dockerHost initial =
     (Some \<lparr>type = Docker, version = ''Docker version 24.0.5, build ced0996'',
            composeInstalled = True, composeVersion = Some ''2.5.1''\<rparr>,
      \<lparr>detectedRuntime = Some Docker,
       runtimeInfo = Some \<lparr>type = Docker, version = ''Docker version 24.0.5, build ced0996'',
                           composeInstalled = True, composeVersion = Some ''2.5.1''\<rparr>,
       issued = [''docker --version'', ''docker --version'', ''docker compose version'']\<rparr>)"
  by (simp add: getRuntimeInfo_def detectRuntime_def execAsync_def dockerHost_def answers_def
        initial_def composeCheck_def composePattern_def Let_def js_eval)

lemma twoCallers_run:
  "runI twoCallers initialSystem =
     \<lparr>cache = \<lparr>detectedRuntime = Some Docker,
               runtimeInfo = Some \<lparr>type = Docker, version = ''Docker version 24.0.5, build ced0996'',
                                   composeInstalled = True, composeVersion = Some ''2.5.1''\<rparr>,
               issued = [''docker --version'', ''docker --version'', ''docker --version'',
                         ''docker --version'', ''docker compose version'',
                         ''docker compose version'']\<rparr>,
      suspended = [],
      held = [Docker, Docker, Docker, Docker, Docker, Docker, Docker, Docker]\<rparr>"
  by (simp add: twoCallers_def initialSystem_def stepI_def logKind_def launch_def
        callGetRuntimeInfo_def callDetectRuntime_def detectBegin_def reset_def execAsync_def
        dockerHost_def answers_def initial_def composeCheck_def composePattern_def
        Let_def js_eval)




section \<open>The compose probe\<close>

lemma rmatch_Plus_Digit_Nil [simp]: "rmatch (Plus Digit) [] = []"
  by (simp add: rmatch_Plus)

lemma rmatch_Plus_Digit_Cons:
  "rmatch (Plus Digit) (c # cs) = (if isDigit c then rmatch (Plus Digit) cs @ [cs] else [])"
  by (simp add: rmatch_Plus [of Digit "c # cs"])

lemma rmatch_Plus_Digit_sound:
  "t \<in> set (rmatch (Plus Digit) s) \<Longrightarrow> \<exists>d. isDigits d \<and> s = d @ t"
proof (induction s)
  case Nil
  then show ?case by simp
next
  case (Cons c cs)
  then have c: "isDigit c" and alt: "t \<in> set (rmatch (Plus Digit) cs) \<or> t = cs"
    by (auto simp add: rmatch_Plus_Digit_Cons split: if_splits)
  from alt show ?case
  proof
    assume "t \<in> set (rmatch (Plus Digit) cs)"
    then obtain d where "isDigits d" "cs = d @ t" using Cons.IH by blast
    with c have "isDigits (c # d) \<and> c # cs = (c # d) @ t"
      by (simp add: isDigits_def)
    then show ?thesis by blast
  next
    assume "t = cs"
    with c have "isDigits [c] \<and> c # cs = [c] @ t"
      by (simp add: isDigits_def)
    then show ?thesis by blast
  qed
qed

lemma rmatch_Lit_iff: "t \<in> set (rmatch (Lit c) s) \<longleftrightarrow> s = c # t"
  by (cases s) auto

lemma rmatch_Seq_iff:
  "t \<in> set (rmatch (Seq a b) s) \<longleftrightarrow> (\<exists>u \<in> set (rmatch a s). t \<in> set (rmatch b u))"
  by simp

lemma compose_body_sound:
  assumes "t \<in> set (rmatch (body composePattern) s)"
  shows "\<exists>d1 d2 d3. isDigits d1 \<and> isDigits d2 \<and> isDigits d3
           \<and> s = d1 @ ''.'' @ d2 @ ''.'' @ d3 @ t"
proof -
  from assms obtain u1 u2 u3 u4 where
    1: "u1 \<in> set (rmatch (Plus Digit) s)" and
    2: "u2 \<in> set (rmatch (Lit CHR ''.'') u1)" and
    3: "u3 \<in> set (rmatch (Plus Digit) u2)" and
    4: "u4 \<in> set (rmatch (Lit CHR ''.'') u3)" and
    5: "t \<in> set (rmatch (Plus Digit) u4)"
    unfolding composePattern_def pattern.simps rmatch_Seq_iff by blast
  from 1 obtain d1 where d1: "isDigits d1" "s = d1 @ u1"
    using rmatch_Plus_Digit_sound by blast
  from 3 obtain d2 where d2: "isDigits d2" "u2 = d2 @ u3"
    using rmatch_Plus_Digit_sound by blast
  from 5 obtain d3 where d3: "isDigits d3" "u4 = d3 @ t"
    using rmatch_Plus_Digit_sound by blast
  from 2 have "u1 = CHR ''.'' # u2" by (simp only: rmatch_Lit_iff)
  moreover from 4 have "u3 = CHR ''.'' # u4" by (simp only: rmatch_Lit_iff)
  ultimately have "s = d1 @ ''.'' @ d2 @ ''.'' @ d3 @ t"
    using d1 d2 d3 by simp
  with d1 d2 d3 show ?thesis by blast
qed

lemma matchAt_Some:
  "matchAt r s = Some (m, t) \<Longrightarrow> t \<in> set (rmatch r s) \<and> m = take (length s - length t) s"
  by (auto simp add: matchAt_def split: list.splits)

lemma search_Some:
  "search r pre s = Some (p, m, t) \<Longrightarrow>
     \<exists>q u. p = pre @ q \<and> s = q @ u \<and> matchAt r u = Some (m, t)"
proof (induction s arbitrary: pre)
  case Nil
  then show ?case by (auto split: option.splits)
next
  case (Cons c cs)
  show ?case
  proof (cases "matchAt r (c # cs)")
    case None
    with Cons.prems have "search r (pre @ [c]) cs = Some (p, m, t)" by simp
    then obtain q u where "p = (pre @ [c]) @ q" "cs = q @ u" "matchAt r u = Some (m, t)"
      using Cons.IH by blast
    then have "p = pre @ (c # q) \<and> c # cs = (c # q) @ u \<and> matchAt r u = Some (m, t)"
      by simp
    then show ?thesis by blast
  next
    case (Some a)
    with Cons.prems have "matchAt r (c # cs) = Some (m, t)" and "p = pre"
      by (auto split: prod.splits)
    then have "p = pre @ [] \<and> c # cs = [] @ (c # cs) \<and> matchAt r (c # cs) = Some (m, t)"
      by simp
    then show ?thesis by blast
  qed
qed

lemma compose_match_shape:
  assumes "matchRegex out composePattern = Some m"
  shows "\<exists>pre d1 d2 d3 post. isDigits d1 \<and> isDigits d2 \<and> isDigits d3
           \<and> m = d1 @ ''.'' @ d2 @ ''.'' @ d3 \<and> out = pre @ m @ post"
proof -
  from assms obtain p t where "search (body composePattern) [] out = Some (p, m, t)"
    by (auto simp add: matchRegex_def regexExec_def composePattern_def split: option.splits)
  then obtain q u where qu: "out = q @ u" "matchAt (body composePattern) u = Some (m, t)"
    using search_Some by blast
  then have t: "t \<in> set (rmatch (body composePattern) u)"
    and m: "m = take (length u - length t) u"
    using matchAt_Some by blast+
  from t obtain d1 d2 d3 where d: "isDigits d1" "isDigits d2" "isDigits d3"
    "u = d1 @ ''.'' @ d2 @ ''.'' @ d3 @ t"
    using compose_body_sound by blast
  then have "u = (d1 @ ''.'' @ d2 @ ''.'' @ d3) @ t" by simp
  with m have "m = d1 @ ''.'' @ d2 @ ''.'' @ d3" by simp
  moreover from this d qu have "out = q @ m @ t" by simp
  ultimately show ?thesis using d by blast
qed

lemma digit_facts:
  assumes "isDigit c"
  shows "\<not> isSpace c" and "c \<noteq> CHR ''.''" and "c \<noteq> CHR ''-''" and "c \<noteq> CHR ''+''"
    and "isRadixDigit 10 c"
  using assms by (auto simp add: isDigit_def isSpace_def isRadixDigit_def digitVal_def)

lemma splitChar_prefix:
  "sep \<notin> set d \<Longrightarrow> splitChar sep (d @ sep # rest) = d # splitChar sep rest"
  by (induction d) auto

lemma isDigits_no_dot: "isDigits d \<Longrightarrow> CHR ''.'' \<notin> set d"
  using digit_facts(2) by (auto simp add: isDigits_def list_all_iff)

lemma parseInt_digits:
  assumes "isDigits d"
  shows "parseInt d (Some 10) = Num (of_nat (digitsValue 10 d))"
proof -
  from assms obtain c cs where d: "d = c # cs" and c: "isDigit c"
    by (cases d) (auto simp add: isDigits_def)
  from assms have all: "takeWhile (isRadixDigit 10) d = d"
    using digit_facts(5) by (auto simp add: isDigits_def list_all_iff takeWhile_eq_all_conv)
  have "dropWhile isSpace d = d"
    using c d digit_facts(1) by simp
  moreover have "\<not> startsWith d ''-''" "\<not> startsWith d ''+''"
    using c d digit_facts(3,4) by auto
  ultimately show ?thesis
    using all d by (simp add: parseInt_def parseDigits_def)
qed

lemma compose_major:
  assumes "isDigits d1"
  shows "(case splitChar CHR ''.'' (d1 @ ''.'' @ rest) of [] \<Rightarrow> NaN | p # _ \<Rightarrow> parseInt p (Some 10))
           = Num (of_nat (digitsValue 10 d1))"
  using splitChar_prefix [OF isDigits_no_dot [OF assms], of rest] parseInt_digits [OF assms]
  by simp

lemma composeCheck_installed:
  assumes "\<not> composeInstalled info"
  shows "composeInstalled (composeCheck out info) \<longleftrightarrow>
           (\<exists>d1 d2 d3. matchRegex out composePattern = Some (d1 @ ''.'' @ d2 @ ''.'' @ d3)
              \<and> isDigits d1 \<and> isDigits d2 \<and> isDigits d3 \<and> 2 \<le> digitsValue 10 d1)"
proof (cases "matchRegex out composePattern")
  case None
  then show ?thesis using assms by (simp add: composeCheck_def)
next
  case (Some m)
  then obtain d1 d2 d3 where d: "isDigits d1" "isDigits d2" "isDigits d3"
    and m: "m = d1 @ ''.'' @ d2 @ ''.'' @ d3"
    using compose_match_shape by blast
  have ne: "out \<noteq> []"
    using Some by (auto simp add: matchRegex_def regexExec_def composePattern_def matchAt_def
        rmatch_Plus)
  have inst: "composeInstalled (composeCheck out info) \<longleftrightarrow> 2 \<le> digitsValue 10 d1"
    using Some ne compose_major [OF d(1), of "d2 @ ''.'' @ d3"]
    by (simp add: composeCheck_def m geNum_def)
  show ?thesis
  proof
    assume "composeInstalled (composeCheck out info)"
    with inst Some m d show "\<exists>d1 d2 d3. matchRegex out composePattern = Some (d1 @ ''.'' @ d2 @ ''.'' @ d3)
              \<and> isDigits d1 \<and> isDigits d2 \<and> isDigits d3 \<and> 2 \<le> digitsValue 10 d1"
      by blast
  next
    assume "\<exists>d1 d2 d3. matchRegex out composePattern = Some (d1 @ ''.'' @ d2 @ ''.'' @ d3)
              \<and> isDigits d1 \<and> isDigits d2 \<and> isDigits d3 \<and> 2 \<le> digitsValue 10 d1"
    then obtain e1 e2 e3 where e: "m = e1 @ ''.'' @ e2 @ ''.'' @ e3" "isDigits e1"
      "2 \<le> digitsValue 10 e1"
      using Some by auto
    have "e1 = d1"
    proof -
      have "splitChar CHR ''.'' m = e1 # splitChar CHR ''.'' (e2 @ ''.'' @ e3)"
        using splitChar_prefix [OF isDigits_no_dot [OF e(2)]] e(1) by simp
      moreover have "splitChar CHR ''.'' m = d1 # splitChar CHR ''.'' (d2 @ ''.'' @ d3)"
        using splitChar_prefix [OF isDigits_no_dot [OF d(1)]] m by simp
      ultimately show ?thesis by simp
    qed
    with e inst show "composeInstalled (composeCheck out info)" by simp
  qed
qed

lemma composeCheck_version_field:
  "composeVersion info = None \<Longrightarrow>
     composeVersion (composeCheck out info) = matchRegex out composePattern"
  by (auto simp add: composeCheck_def Let_def matchRegex_def regexExec_def composePattern_def
        matchAt_def rmatch_Plus split: option.splits)

subsection \<open>The leftmost match\<close>

lemma rmatch_Plus_Digit_complete:
  "isDigits d \<Longrightarrow> t \<in> set (rmatch (Plus Digit) (d @ t))"
proof (induction d)
  case Nil
  then show ?case by (simp add: isDigits_def)
next
  case (Cons c d)
  then have c: "isDigit c" by (simp add: isDigits_def)
  show ?case
  proof (cases "d = []")
    case True
    with c show ?thesis by (simp add: rmatch_Plus_Digit_Cons)
  next
    case False
    with Cons.prems have "isDigits d" by (simp add: isDigits_def)
    then have "t \<in> set (rmatch (Plus Digit) (d @ t))" by (rule Cons.IH)
    with c show ?thesis by (simp add: rmatch_Plus_Digit_Cons)
  qed
qed

lemma compose_body_complete:
  assumes "isDigits d1" "isDigits d2" "isDigits d3"
  shows "t \<in> set (rmatch (body composePattern) (d1 @ ''.'' @ d2 @ ''.'' @ d3 @ t))"
proof -
  have 5: "t \<in> set (rmatch (Plus Digit) (d3 @ t))"
    using assms(3) by (rule rmatch_Plus_Digit_complete)
  have 4: "d3 @ t \<in> set (rmatch (Lit CHR ''.'') (''.'' @ d3 @ t))"
    by (simp add: rmatch_Lit_iff)
  have 3: "''.'' @ d3 @ t \<in> set (rmatch (Plus Digit) (d2 @ ''.'' @ d3 @ t))"
    using assms(2) by (rule rmatch_Plus_Digit_complete)
  have 2: "d2 @ ''.'' @ d3 @ t \<in> set (rmatch (Lit CHR ''.'') (''.'' @ d2 @ ''.'' @ d3 @ t))"
    by (simp add: rmatch_Lit_iff)
  have 1: "''.'' @ d2 @ ''.'' @ d3 @ t \<in> set (rmatch (Plus Digit) (d1 @ ''.'' @ d2 @ ''.'' @ d3 @ t))"
    using assms(1) by (rule rmatch_Plus_Digit_complete)
  show ?thesis
    unfolding composePattern_def pattern.simps rmatch_Seq_iff
    using 1 2 3 4 5 by blast
qed

lemma matchAt_compose_None: "matchAt (body composePattern) u = None \<longleftrightarrow> \<not> semverAt u"
proof
  assume n: "matchAt (body composePattern) u = None"
  show "\<not> semverAt u"
  proof
    assume "semverAt u"
    then obtain d1 d2 d3 t where "isDigits d1" "isDigits d2" "isDigits d3"
      "u = d1 @ ''.'' @ d2 @ ''.'' @ d3 @ t"
      by (auto simp add: semverAt_def)
    then have "t \<in> set (rmatch (body composePattern) u)"
      using compose_body_complete by simp
    with n show False by (auto simp add: matchAt_def split: list.splits)
  qed
next
  assume s: "\<not> semverAt u"
  show "matchAt (body composePattern) u = None"
  proof (cases "rmatch (body composePattern) u")
    case Nil
    then show ?thesis by (simp add: matchAt_def)
  next
    case (Cons t ts)
    then have "t \<in> set (rmatch (body composePattern) u)" by simp
    then have "semverAt u"
      using compose_body_sound [of t u] by (auto simp add: semverAt_def)
    with s show ?thesis by simp
  qed
qed

lemma search_leftmost:
  "search r pre s = Some (p, m, t) \<longleftrightarrow>
     (\<exists>q u. s = q @ u \<and> p = pre @ q \<and> matchAt r u = Some (m, t)
            \<and> (\<forall>a b. q = a @ b \<and> b \<noteq> [] \<longrightarrow> matchAt r (b @ u) = None))"
proof (induction s arbitrary: pre)
  case Nil
  show ?case by (auto split: option.splits)
next
  case (Cons c cs)
  show ?case
  proof (cases "matchAt r (c # cs)")
    case (Some a)
    show ?thesis
    proof
      assume "search r pre (c # cs) = Some (p, m, t)"
      with Some have "matchAt r (c # cs) = Some (m, t)" "p = pre"
        by (auto split: prod.splits)
      then have "c # cs = [] @ (c # cs) \<and> p = pre @ [] \<and> matchAt r (c # cs) = Some (m, t)
            \<and> (\<forall>a b. [] = a @ b \<and> b \<noteq> [] \<longrightarrow> matchAt r (b @ (c # cs)) = None)"
        by simp
      then show "\<exists>q u. c # cs = q @ u \<and> p = pre @ q \<and> matchAt r u = Some (m, t)
            \<and> (\<forall>a b. q = a @ b \<and> b \<noteq> [] \<longrightarrow> matchAt r (b @ u) = None)"
        by blast
    next
      assume "\<exists>q u. c # cs = q @ u \<and> p = pre @ q \<and> matchAt r u = Some (m, t)
            \<and> (\<forall>a b. q = a @ b \<and> b \<noteq> [] \<longrightarrow> matchAt r (b @ u) = None)"
      then obtain q u where qu: "c # cs = q @ u" "p = pre @ q" "matchAt r u = Some (m, t)"
        and left: "\<forall>a b. q = a @ b \<and> b \<noteq> [] \<longrightarrow> matchAt r (b @ u) = None" by blast
      have "q = []"
      proof (rule ccontr)
        assume "q \<noteq> []"
        with left have "matchAt r (q @ u) = None" by (metis append_Nil)
        with qu Some show False by simp
      qed
      with qu have "u = c # cs" and "p = pre" by simp_all
      with qu(3) have "matchAt r (c # cs) = Some (m, t)" by simp
      with \<open>p = pre\<close> show "search r pre (c # cs) = Some (p, m, t)" by simp
    qed
  next
    case None
    have step: "search r pre (c # cs) = search r (pre @ [c]) cs"
      using None by simp
    show ?thesis
    proof
      assume "search r pre (c # cs) = Some (p, m, t)"
      with step Cons [of "pre @ [c]"] obtain q u where
        qu: "cs = q @ u" "p = (pre @ [c]) @ q" "matchAt r u = Some (m, t)"
        and left: "\<forall>a b. q = a @ b \<and> b \<noteq> [] \<longrightarrow> matchAt r (b @ u) = None" by auto
      have "\<forall>a b. c # q = a @ b \<and> b \<noteq> [] \<longrightarrow> matchAt r (b @ u) = None"
      proof (intro allI impI)
        fix a b
        assume ab: "c # q = a @ b \<and> b \<noteq> []"
        show "matchAt r (b @ u) = None"
        proof (cases a)
          case Nil
          with ab qu None show ?thesis by auto
        next
          case (Cons x xs)
          with ab have "q = xs @ b \<and> b \<noteq> []" by simp
          with left show ?thesis by blast
        qed
      qed
      with qu have "c # cs = (c # q) @ u \<and> p = pre @ (c # q) \<and> matchAt r u = Some (m, t)
            \<and> (\<forall>a b. c # q = a @ b \<and> b \<noteq> [] \<longrightarrow> matchAt r (b @ u) = None)"
        by simp
      then show "\<exists>q u. c # cs = q @ u \<and> p = pre @ q \<and> matchAt r u = Some (m, t)
            \<and> (\<forall>a b. q = a @ b \<and> b \<noteq> [] \<longrightarrow> matchAt r (b @ u) = None)"
        by blast
    next
      assume "\<exists>q u. c # cs = q @ u \<and> p = pre @ q \<and> matchAt r u = Some (m, t)
            \<and> (\<forall>a b. q = a @ b \<and> b \<noteq> [] \<longrightarrow> matchAt r (b @ u) = None)"
      then obtain q u where qu: "c # cs = q @ u" "p = pre @ q" "matchAt r u = Some (m, t)"
        and left: "\<forall>a b. q = a @ b \<and> b \<noteq> [] \<longrightarrow> matchAt r (b @ u) = None" by blast
      from qu None have "q \<noteq> []" by auto
      with qu obtain q' where q': "q = c # q'" by (cases q) auto
      with qu have "cs = q' @ u" "p = (pre @ [c]) @ q'" by simp_all
      moreover have "\<forall>a b. q' = a @ b \<and> b \<noteq> [] \<longrightarrow> matchAt r (b @ u) = None"
        using left q' by (metis append_Cons)
      ultimately have "search r (pre @ [c]) cs = Some (p, m, t)"
        using Cons [of "pre @ [c]"] qu(3) by blast
      with step show "search r pre (c # cs) = Some (p, m, t)" by simp
    qed
  qed
qed

lemma matchAt_compose_Some:
  assumes "matchAt (body composePattern) u = Some (m, t)"
  shows "\<exists>d1 d2 d3. isDigits d1 \<and> isDigits d2 \<and> isDigits d3
           \<and> m = d1 @ ''.'' @ d2 @ ''.'' @ d3 \<and> u = m @ t"
proof -
  from assms have t: "t \<in> set (rmatch (body composePattern) u)"
    and m: "m = take (length u - length t) u"
    using matchAt_Some by blast+
  from t obtain d1 d2 d3 where d: "isDigits d1" "isDigits d2" "isDigits d3"
    "u = d1 @ ''.'' @ d2 @ ''.'' @ d3 @ t"
    using compose_body_sound by blast
  then have "u = (d1 @ ''.'' @ d2 @ ''.'' @ d3) @ t" by simp
  with m have "m = d1 @ ''.'' @ d2 @ ''.'' @ d3" by simp
  with d show ?thesis by auto
qed

lemma digits_before_dot:
  assumes "isDigits a" "isDigits b" "a @ ''.'' @ x = b @ ''.'' @ y"
  shows "a = b"
proof -
  have "\<And>d z. isDigits d \<Longrightarrow> takeWhile isDigit (d @ ''.'' @ z) = d"
    by (simp add: isDigits_def list_all_iff takeWhile_append2 isDigit_def)
  then have "takeWhile isDigit (a @ ''.'' @ x) = a" "takeWhile isDigit (b @ ''.'' @ y) = b"
    using assms(1,2) by blast+
  with assms(3) show ?thesis by simp
qed

lemma compose_installed_leftmost:
  assumes "\<not> composeInstalled info"
  shows "composeInstalled (composeCheck out info) \<longleftrightarrow>
     (\<exists>pre d1 rest. out = pre @ d1 @ ''.'' @ rest \<and> isDigits d1
        \<and> semverAt (d1 @ ''.'' @ rest)
        \<and> (\<forall>a b. pre = a @ b \<and> b \<noteq> [] \<longrightarrow> \<not> semverAt (b @ d1 @ ''.'' @ rest))
        \<and> 2 \<le> digitsValue 10 d1)"
proof
  assume "composeInstalled (composeCheck out info)"
  then obtain d1 d2 d3 where mr: "matchRegex out composePattern = Some (d1 @ ''.'' @ d2 @ ''.'' @ d3)"
    and d: "isDigits d1" "isDigits d2" "isDigits d3" and v: "2 \<le> digitsValue 10 d1"
    using composeCheck_installed [OF assms, of out] by blast
  let ?m = "d1 @ ''.'' @ d2 @ ''.'' @ d3"
  from mr obtain p t where "search (body composePattern) [] out = Some (p, ?m, t)"
    by (auto simp add: matchRegex_def regexExec_def composePattern_def split: option.splits)
  then obtain q u where qu: "out = q @ u" "matchAt (body composePattern) u = Some (?m, t)"
    and left: "\<forall>a b. q = a @ b \<and> b \<noteq> [] \<longrightarrow> matchAt (body composePattern) (b @ u) = None"
    unfolding search_leftmost by blast
  from qu(2) have u: "u = ?m @ t"
    using matchAt_compose_Some by blast
  then have u': "u = d1 @ ''.'' @ (d2 @ ''.'' @ d3 @ t)" by simp
  have "semverAt u"
    using d u unfolding semverAt_def by (metis append.assoc)
  moreover have "\<forall>a b. q = a @ b \<and> b \<noteq> [] \<longrightarrow> \<not> semverAt (b @ u)"
    using left by (simp add: matchAt_compose_None)
  ultimately have "out = q @ d1 @ ''.'' @ (d2 @ ''.'' @ d3 @ t) \<and> isDigits d1
        \<and> semverAt (d1 @ ''.'' @ (d2 @ ''.'' @ d3 @ t))
        \<and> (\<forall>a b. q = a @ b \<and> b \<noteq> [] \<longrightarrow> \<not> semverAt (b @ d1 @ ''.'' @ (d2 @ ''.'' @ d3 @ t)))
        \<and> 2 \<le> digitsValue 10 d1"
    using qu(1) d(1) v u' by simp
  then show "\<exists>pre d1 rest. out = pre @ d1 @ ''.'' @ rest \<and> isDigits d1
        \<and> semverAt (d1 @ ''.'' @ rest)
        \<and> (\<forall>a b. pre = a @ b \<and> b \<noteq> [] \<longrightarrow> \<not> semverAt (b @ d1 @ ''.'' @ rest))
        \<and> 2 \<le> digitsValue 10 d1"
    by blast
next
  assume "\<exists>pre d1 rest. out = pre @ d1 @ ''.'' @ rest \<and> isDigits d1
        \<and> semverAt (d1 @ ''.'' @ rest)
        \<and> (\<forall>a b. pre = a @ b \<and> b \<noteq> [] \<longrightarrow> \<not> semverAt (b @ d1 @ ''.'' @ rest))
        \<and> 2 \<le> digitsValue 10 d1"
  then obtain pre d1 rest where out: "out = pre @ d1 @ ''.'' @ rest" and d1: "isDigits d1"
    and sv: "semverAt (d1 @ ''.'' @ rest)"
    and left: "\<forall>a b. pre = a @ b \<and> b \<noteq> [] \<longrightarrow> \<not> semverAt (b @ d1 @ ''.'' @ rest)"
    and v: "2 \<le> digitsValue 10 d1" by blast
  let ?u = "d1 @ ''.'' @ rest"
  from sv obtain m t where mt: "matchAt (body composePattern) ?u = Some (m, t)"
    using matchAt_compose_None [of ?u] by (cases "matchAt (body composePattern) ?u") auto
  have "\<forall>a b. pre = a @ b \<and> b \<noteq> [] \<longrightarrow> matchAt (body composePattern) (b @ ?u) = None"
    using left by (simp add: matchAt_compose_None)
  with out mt have "search (body composePattern) [] out = Some ([] @ pre, m, t)"
    unfolding search_leftmost by blast
  then have mr: "matchRegex out composePattern = Some m"
    by (simp add: matchRegex_def regexExec_def composePattern_def)
  from mt obtain e1 e2 e3 where e: "isDigits e1" "isDigits e2" "isDigits e3"
    and m: "m = e1 @ ''.'' @ e2 @ ''.'' @ e3" and u: "?u = m @ t"
    using matchAt_compose_Some by blast
  from u m have "d1 @ ''.'' @ rest = e1 @ ''.'' @ (e2 @ ''.'' @ e3 @ t)" by simp
  then have "d1 = e1"
    using digits_before_dot [OF d1 e(1)] by blast
  with v e m mr have "\<exists>d1 d2 d3. matchRegex out composePattern = Some (d1 @ ''.'' @ d2 @ ''.'' @ d3)
              \<and> isDigits d1 \<and> isDigits d2 \<and> isDigits d3 \<and> 2 \<le> digitsValue 10 d1"
    by blast
  then show "composeInstalled (composeCheck out info)"
    using composeCheck_installed [OF assms, of out] by blast
qed

subsection \<open>The info assembled afresh\<close>

lemma getRuntimeInfo_fresh:
  assumes "fst (detectRuntime sh s) = Some runtime"
    and "\<forall>ri. runtimeInfo s = Some ri \<longrightarrow> type ri \<noteq> runtime"
    and "sh (issued (snd (detectRuntime sh s))) (runtimeName runtime @ '' --version'') = Inr vout"
  shows "getRuntimeInfo sh s =
           (let s1 = snd (detectRuntime sh s);
                info1 = \<lparr>type = runtime, version = trim (stdout vout), composeInstalled = False,
                          composeVersion = None\<rparr>;
                info2 = (case sh (issued s1 @ [runtimeName runtime @ '' --version''])
                                 (runtimeName runtime @ '' compose version'') of
                           Inr cout \<Rightarrow> composeCheck (stdout cout) info1
                         | Inl e \<Rightarrow> info1)
            in (Some info2,
                s1\<lparr>issued := issued s1 @ [runtimeName runtime @ '' --version'',
                                            runtimeName runtime @ '' compose version''],
                    runtimeInfo := Some info2\<rparr>))"
proof -
  obtain s1 where d: "detectRuntime sh s = (Some runtime, s1)"
    using assms(1) by (cases "detectRuntime sh s") simp
  have "runtimeInfo s1 = runtimeInfo s"
    using detectRuntime_info [of sh s] d by simp
  with assms(2) have miss: "\<not> (case runtimeInfo s1 of None \<Rightarrow> False | Some ri \<Rightarrow> type ri = runtime)"
    by (simp split: option.splits)
  from assms(3) d have v: "sh (issued s1) (runtimeName runtime @ '' --version'') = Inr vout"
    by simp
  show ?thesis
    using miss v
    by (simp add: getRuntimeInfo_def d execAsync_def Let_def split: sum.splits)
qed

text \<open>
  C4 (as amended). When getRuntimeInfo assembles a fresh info and the version command has
  succeeded, it returns and caches an info whatever the compose probe does. If the probe
  is rejected, composeInstalled is false. If it resolves, composeVersion is the leftmost
  match of \<open>\d+\.\d+\.\d+\<close> in its output (the one \<open>String.match\<close> returns), and
  composeInstalled is true if and only if that leftmost match exists and its major
  component, read as a decimal number, is at least 2: the output has a position where
  digits, a dot, digits, a dot and digits start, no earlier position is such, and the
  digits before the first dot there are a number of at least 2. The output
  "Docker Compose version v2.5.1" gives true and "2.5.1"; "1.29.0" gives false.
\<close>

theorem compose_version_gate:
  assumes "fst (detectRuntime sh s) = Some runtime"
    and "\<forall>ri. runtimeInfo s = Some ri \<longrightarrow> type ri \<noteq> runtime"
    and "sh (issued (snd (detectRuntime sh s))) (runtimeName runtime @ '' --version'') = Inr vout"
    and "probe = sh (issued (snd (detectRuntime sh s)) @ [runtimeName runtime @ '' --version''])
                    (runtimeName runtime @ '' compose version'')"
  shows "\<exists>info s'. getRuntimeInfo sh s = (Some info, s') \<and> runtimeInfo s' = Some info
           \<and> (case probe of
                 Inl e \<Rightarrow> \<not> composeInstalled info
               | Inr cout \<Rightarrow>
                   (composeInstalled info \<longleftrightarrow>
                      (\<exists>d1 d2 d3. matchRegex (stdout cout) composePattern
                                     = Some (d1 @ ''.'' @ d2 @ ''.'' @ d3)
                         \<and> isDigits d1 \<and> isDigits d2 \<and> isDigits d3
                         \<and> 2 \<le> digitsValue 10 d1))
                   \<and> (composeInstalled info \<longleftrightarrow>
                      (\<exists>pre d1 rest. stdout cout = pre @ d1 @ ''.'' @ rest \<and> isDigits d1
                         \<and> semverAt (d1 @ ''.'' @ rest)
                         \<and> (\<forall>a b. pre = a @ b \<and> b \<noteq> []
                                \<longrightarrow> \<not> semverAt (b @ d1 @ ''.'' @ rest))
                         \<and> 2 \<le> digitsValue 10 d1))
                   \<and> composeVersion info = matchRegex (stdout cout) composePattern
                   \<and> (stdout cout = ''Docker Compose version v2.5.1''
                        \<longrightarrow> composeInstalled info \<and> composeVersion info = Some ''2.5.1'')
                   \<and> (stdout cout = ''1.29.0'' \<longrightarrow> \<not> composeInstalled info))"
proof (cases probe)
  case (Inl e)
  then have "sh (issued (snd (detectRuntime sh s)) @ [runtimeName runtime @ '' --version''])
               (runtimeName runtime @ '' compose version'') = Inl e"
    using assms(4) by simp
  then show ?thesis
    using Inl by (simp add: getRuntimeInfo_fresh [OF assms(1,2,3)] Let_def)
next
  case (Inr cout)
  let ?info1 = "\<lparr>type = runtime, version = trim (stdout vout), composeInstalled = False,
                   composeVersion = None\<rparr>"
  let ?info = "composeCheck (stdout cout) ?info1"
  have gate: "composeInstalled ?info \<longleftrightarrow>
                (\<exists>d1 d2 d3. matchRegex (stdout cout) composePattern
                               = Some (d1 @ ''.'' @ d2 @ ''.'' @ d3)
                   \<and> isDigits d1 \<and> isDigits d2 \<and> isDigits d3 \<and> 2 \<le> digitsValue 10 d1)"
    by (rule composeCheck_installed) simp
  have sem: "composeInstalled ?info \<longleftrightarrow>
                (\<exists>pre d1 rest. stdout cout = pre @ d1 @ ''.'' @ rest \<and> isDigits d1
                   \<and> semverAt (d1 @ ''.'' @ rest)
                   \<and> (\<forall>a b. pre = a @ b \<and> b \<noteq> []
                          \<longrightarrow> \<not> semverAt (b @ d1 @ ''.'' @ rest))
                   \<and> 2 \<le> digitsValue 10 d1)"
    by (rule compose_installed_leftmost) simp
  have ver: "composeVersion ?info = matchRegex (stdout cout) composePattern"
    by (rule composeCheck_version_field) simp
  have new: "stdout cout = ''Docker Compose version v2.5.1''
               \<longrightarrow> composeInstalled ?info \<and> composeVersion ?info = Some ''2.5.1''"
    by (simp add: composeCheck_def composePattern_def Let_def js_eval)
  have old: "stdout cout = ''1.29.0'' \<longrightarrow> \<not> composeInstalled ?info"
    by (simp add: composeCheck_def composePattern_def Let_def js_eval)
  have p: "sh (issued (snd (detectRuntime sh s)) @ [runtimeName runtime @ '' --version''])
              (runtimeName runtime @ '' compose version'') = Inr cout"
    using assms(4) Inr by simp
  have "getRuntimeInfo sh s =
          (Some ?info,
           (snd (detectRuntime sh s))
             \<lparr>issued := issued (snd (detectRuntime sh s))
                          @ [runtimeName runtime @ '' --version'',
                             runtimeName runtime @ '' compose version''],
              runtimeInfo := Some ?info\<rparr>)"
    using p by (simp add: getRuntimeInfo_fresh [OF assms(1,2,3)] Let_def)
  then show ?thesis
    using gate sem ver new old Inr by simp
qed

theorem compose_version_gate_witness:
  "fst (detectRuntime dockerHost initial) = Some Docker
   \<and> runtimeInfo initial = None
   \<and> dockerHost [''docker --version''] ''docker --version''
       = Inr \<lparr>stdout = ''Docker version 24.0.5, build ced0996\<newline>'', stderr = []\<rparr>
   \<and> dockerHost [''docker --version'', ''docker --version''] ''docker compose version''
       = Inr \<lparr>stdout = ''Docker Compose version v2.5.1'', stderr = []\<rparr>
   \<and> fst (getRuntimeInfo dockerHost initial)
       = Some \<lparr>type = Docker, version = ''Docker version 24.0.5, build ced0996'',
                composeInstalled = True, composeVersion = Some ''2.5.1''\<rparr>
   \<and> fst (getRuntimeInfo oldComposeHost initial)
       = Some \<lparr>type = Docker, version = ''Docker version 20.10.7'',
                composeInstalled = False, composeVersion = Some ''1.29.0''\<rparr>
   \<and> fst (getRuntimeInfo (answers [(''docker --version'', ''Docker version 24.0.5'')]) initial)
       = Some \<lparr>type = Docker, version = ''Docker version 24.0.5'',
                composeInstalled = False, composeVersion = None\<rparr>"
proof -
  have h1: "fst (detectRuntime dockerHost initial) = Some Docker"
    by (simp add: dockerHost_def host_eval js_eval)
  have h2: "\<forall>ri. runtimeInfo initial = Some ri \<longrightarrow> type ri \<noteq> Docker"
    by (simp add: initial_def)
  have h3: "dockerHost (issued (snd (detectRuntime dockerHost initial)))
              (runtimeName Docker @ '' --version'')
            = Inr \<lparr>stdout = ''Docker version 24.0.5, build ced0996\<newline>'', stderr = []\<rparr>"
    by (simp add: dockerHost_def host_eval js_eval)
  have h4: "Inr \<lparr>stdout = ''Docker Compose version v2.5.1'', stderr = []\<rparr>
            = dockerHost (issued (snd (detectRuntime dockerHost initial))
                           @ [runtimeName Docker @ '' --version''])
                (runtimeName Docker @ '' compose version'')"
    by (simp add: dockerHost_def host_eval js_eval)
  have new: "fst (getRuntimeInfo dockerHost initial)
       = Some \<lparr>type = Docker, version = ''Docker version 24.0.5, build ced0996'',
                composeInstalled = True, composeVersion = Some ''2.5.1''\<rparr>"
    using compose_version_gate [OF h1 h2 h3 h4] by (simp add: dockerHost_info)
  have old: "fst (getRuntimeInfo oldComposeHost initial)
       = Some \<lparr>type = Docker, version = ''Docker version 20.10.7'',
                composeInstalled = False, composeVersion = Some ''1.29.0''\<rparr>"
    by (simp add: oldComposeHost_def host_eval js_eval)
  have none: "fst (getRuntimeInfo (answers [(''docker --version'', ''Docker version 24.0.5'')]) initial)
       = Some \<lparr>type = Docker, version = ''Docker version 24.0.5'',
                composeInstalled = False, composeVersion = None\<rparr>"
    by (simp add: host_eval js_eval)
  have s1: "issued (snd (detectRuntime dockerHost initial)) = [''docker --version'']"
    by (simp add: dockerHost_def host_eval js_eval)
  have h0: "runtimeInfo initial = None"
    by (simp add: initial_def)
  show ?thesis
    using h0 h1 h3 h4 [symmetric] new old none
    by (simp add: s1)
qed

text \<open>
  C4 as stated fails on an output with several versions: the compose output of the host
  below contains 4.4.1, a match of the pattern with major component 4, yet the first
  match is 1.0.6 and composeInstalled is false.
\<close>

theorem compose_first_match_counterexample:
  "fst (getRuntimeInfo shimHost initial)
     = Some \<lparr>type = Podman, version = ''podman version 4.4.1'',
              composeInstalled = False, composeVersion = Some ''1.0.6''\<rparr>
   \<and> shimHost [''docker --version'', ''podman --version''] ''podman compose version''
     = Inr \<lparr>stdout = ''podman-compose version 1.0.6, podman version '' @ ''4.4.1'' @ ''\<newline>'',
            stderr = []\<rparr>
   \<and> matchRegex ''4.4.1'' composePattern = Some ''4.4.1''
   \<and> parseInt ''4'' (Some 10) = Num 4"
  by (simp add: shimHost_def host_eval js_eval)

section \<open>Group membership and network mode\<close>

text \<open>
  C5. When the detected kind is podman, isUserInRuntimeGroup returns true and issues no
  command, so the answer does not depend on the groups of the user. When it is docker, the
  answer is whether \<open>docker\<close> is one of the pieces of the output of \<open>id -Gn\<close>
  split at white space (that is, whether \<open>docker\<close> stands in the output between white
  space or its ends), and false when that command is rejected.
\<close>

theorem isUserInRuntimeGroup_policy:
  "(fst (detectRuntime sh s) = Some Podman \<longrightarrow>
      isUserInRuntimeGroup sh s = (True, snd (detectRuntime sh s)))
   \<and> (fst (detectRuntime sh s) = Some Docker \<longrightarrow>
      fst (isUserInRuntimeGroup sh s) =
        (case sh (issued (snd (detectRuntime sh s))) ''id -Gn'' of
           Inl e \<Rightarrow> False
         | Inr out \<Rightarrow> ''docker'' \<in> set (splitRegex (stdout out) (Plus Space)))
      \<and> fst (isUserInRuntimeGroup sh s) =
        (case sh (issued (snd (detectRuntime sh s))) ''id -Gn'' of
           Inl e \<Rightarrow> False
         | Inr out \<Rightarrow> delimited ''docker'' (stdout out)))"
  by (cases "detectRuntime sh s")
     (simp add: isUserInRuntimeGroup_def execAsync_def split_Space_member [OF isWord_docker]
        split: sum.splits)

theorem isUserInRuntimeGroup_policy_witness:
  "fst (detectRuntime shimHost initial) = Some Podman
   \<and> isUserInRuntimeGroup shimHost initial
       = (True, \<lparr>detectedRuntime = Some Podman, runtimeInfo = None,
                  issued = [''docker --version'']\<rparr>)
   \<and> fst (detectRuntime dockerHost initial) = Some Docker
   \<and> splitRegex ''alice wheel docker\<newline>'' (Plus Space) = [''alice'', ''wheel'', ''docker'', []]
   \<and> fst (isUserInRuntimeGroup dockerHost initial) = True
   \<and> fst (detectRuntime oldComposeHost initial) = Some Docker
   \<and> fst (isUserInRuntimeGroup oldComposeHost initial) = False
   \<and> fst (detectRuntime flakyHost initial) = Some Docker
   \<and> flakyHost [''docker --version''] ''id -Gn'' = Inl ExecError
   \<and> fst (isUserInRuntimeGroup flakyHost initial) = False"
proof -
  have p: "detectRuntime shimHost initial
             = (Some Podman, \<lparr>detectedRuntime = Some Podman, runtimeInfo = None,
                               issued = [''docker --version'']\<rparr>)"
    by (simp add: shimHost_def host_eval js_eval)
  have d: "detectRuntime dockerHost initial
             = (Some Docker, \<lparr>detectedRuntime = Some Docker, runtimeInfo = None,
                               issued = [''docker --version'']\<rparr>)"
    by (simp add: dockerHost_def host_eval js_eval)
  have od: "detectRuntime oldComposeHost initial
             = (Some Docker, \<lparr>detectedRuntime = Some Docker, runtimeInfo = None,
                               issued = [''docker --version'']\<rparr>)"
    by (simp add: oldComposeHost_def host_eval js_eval)
  have f: "detectRuntime flakyHost initial
             = (Some Docker, \<lparr>detectedRuntime = Some Docker, runtimeInfo = None,
                               issued = [''docker --version'']\<rparr>)"
    by (simp add: flakyHost_def dockerHost_def host_eval js_eval)
  have g: "dockerHost [''docker --version''] ''id -Gn''
             = Inr \<lparr>stdout = ''alice wheel docker\<newline>'', stderr = []\<rparr>"
    "oldComposeHost [''docker --version''] ''id -Gn''
             = Inr \<lparr>stdout = ''alice wheel\<newline>'', stderr = []\<rparr>"
    "flakyHost [''docker --version''] ''id -Gn'' = Inl ExecError"
    by (simp_all add: dockerHost_def oldComposeHost_def flakyHost_def answers_def lscpuCommand_def)
  have sp: "splitRegex ''alice wheel docker\<newline>'' (Plus Space) = [''alice'', ''wheel'', ''docker'', []]"
    "splitRegex ''alice wheel\<newline>'' (Plus Space) = [''alice'', ''wheel'', []]"
    by (simp_all add: js_eval)
  show ?thesis
    using isUserInRuntimeGroup_policy [of shimHost initial]
      isUserInRuntimeGroup_policy [of dockerHost initial]
      isUserInRuntimeGroup_policy [of oldComposeHost initial]
      isUserInRuntimeGroup_policy [of flakyHost initial]
    by (simp add: p d od f g sp split_Space_member [OF isWord_docker, symmetric])
qed

text \<open>
  C6. When the detected kind is podman, getNetworkMode returns pasta if getRuntimeInfo
  yields an info whose version contains "4.4", and slirp4netns for every other version
  and when getRuntimeInfo yields no info. When the detected kind is docker it returns
  no value.
\<close>

theorem getNetworkMode_policy:
  "(fst (detectRuntime sh s) = Some Podman \<longrightarrow>
      fst (getNetworkMode sh s) =
        (case fst (getRuntimeInfo sh (snd (detectRuntime sh s))) of
           Some info \<Rightarrow>
             if sublist ''4.4'' (version info) then Some ''pasta'' else Some ''slirp4netns''
         | None \<Rightarrow> Some ''slirp4netns''))
   \<and> (fst (detectRuntime sh s) = Some Docker \<longrightarrow> fst (getNetworkMode sh s) = None)"
proof -
  have e: "\<And>v. (v \<noteq> [] \<and> includes' v ''4.4'') = sublist ''4.4'' v"
    using includes_sublist [of _ "''4.4''"] by auto
  show ?thesis
    by (cases "detectRuntime sh s"; cases "getRuntimeInfo sh (snd (detectRuntime sh s))")
       (auto simp add: getNetworkMode_def e simp del: includes'.simps split: option.splits)
qed

theorem getNetworkMode_policy_witness:
  "fst (detectRuntime shimHost initial) = Some Podman
   \<and> fst (getRuntimeInfo shimHost (snd (detectRuntime shimHost initial)))
       = Some \<lparr>type = Podman, version = ''podman version 4.4.1'',
                composeInstalled = False, composeVersion = Some ''1.0.6''\<rparr>
   \<and> fst (getNetworkMode shimHost initial) = Some ''pasta''
   \<and> fst (detectRuntime podmanHost initial) = Some Podman
   \<and> fst (getNetworkMode podmanHost initial) = Some ''slirp4netns''
   \<and> fst (detectRuntime noEngineHost (detected Podman)) = Some Podman
   \<and> fst (getRuntimeInfo noEngineHost (snd (detectRuntime noEngineHost (detected Podman)))) = None
   \<and> fst (getNetworkMode noEngineHost (detected Podman)) = Some ''slirp4netns''
   \<and> fst (detectRuntime dockerHost initial) = Some Docker
   \<and> fst (getNetworkMode dockerHost initial) = None"
proof -
  have p: "detectRuntime shimHost initial
             = (Some Podman, \<lparr>detectedRuntime = Some Podman, runtimeInfo = None,
                               issued = [''docker --version'']\<rparr>)"
    by (simp add: shimHost_def host_eval js_eval)
  have pi: "fst (getRuntimeInfo shimHost \<lparr>detectedRuntime = Some Podman, runtimeInfo = None,
                               issued = [''docker --version'']\<rparr>)
       = Some \<lparr>type = Podman, version = ''podman version 4.4.1'',
                composeInstalled = False, composeVersion = Some ''1.0.6''\<rparr>"
    by (simp add: shimHost_def host_eval js_eval)
  have q: "detectRuntime podmanHost initial
             = (Some Podman, \<lparr>detectedRuntime = Some Podman, runtimeInfo = None,
                               issued = [''docker --version'', ''podman --version'']\<rparr>)"
    by (simp add: podmanHost_def host_eval js_eval)
  have qi: "fst (getRuntimeInfo podmanHost \<lparr>detectedRuntime = Some Podman, runtimeInfo = None,
                               issued = [''docker --version'', ''podman --version'']\<rparr>)
       = Some \<lparr>type = Podman, version = ''podman version 3.4.2'',
                composeInstalled = False, composeVersion = Some ''1.0.3''\<rparr>"
    by (simp add: podmanHost_def host_eval js_eval)
  have n: "detectRuntime noEngineHost (detected Podman) = (Some Podman, detected Podman)"
    by (simp add: detected_def detectRuntime_def)
  have ni: "fst (getRuntimeInfo noEngineHost (detected Podman)) = None"
    by (simp add: noEngineHost_def detected_def host_eval)
  have d: "detectRuntime dockerHost initial
             = (Some Docker, \<lparr>detectedRuntime = Some Docker, runtimeInfo = None,
                               issued = [''docker --version'']\<rparr>)"
    by (simp add: dockerHost_def host_eval js_eval)
  show ?thesis
    using getNetworkMode_policy [of shimHost initial]
      getNetworkMode_policy [of podmanHost initial]
      getNetworkMode_policy [of noEngineHost "detected Podman"]
      getNetworkMode_policy [of dockerHost initial]
    by (simp add: p pi q qi n ni d includes_sublist [symmetric])
qed

section \<open>Command dispatch\<close>

lemma rmatch_lits:
  "rmatch (lits w) s = (if startsWith s w then [drop (length w) s] else [])"
proof (induction w arbitrary: s)
  case Nil
  show ?case by simp
next
  case (Cons c cs)
  then show ?case by (cases s) auto
qed

lemma replace_engine:
  "replaceRegex command enginePattern name =
     (if startsWith command ''docker'' \<or> startsWith command ''podman''
      then name @ drop 6 command else command)"
proof -
  have "rmatch (body enginePattern) command =
          (if startsWith command ''docker'' then [drop 6 command] else [])
          @ (if startsWith command ''podman'' then [drop 6 command] else [])"
    by (simp add: enginePattern_def rmatch_lits eval_nat_numeral
          del: lits.simps startsWith.simps)
  then show ?thesis
    by (simp add: replaceRegex_def regexExec_def matchAt_def enginePattern_def eval_nat_numeral
          del: lits.simps startsWith.simps)
qed

lemma startsWith_append [simp]: "startsWith (w @ rest) w"
  by (induction w) auto

text \<open>
  C7. execCommand executes the template with a leading \<open>docker\<close> or \<open>podman\<close>
  replaced by the name getCommand resolves, and the rest of the template, from its
  seventh character on, as it is; a template that starts with neither name is executed
  unchanged. The resolved name is the detected kind, and \<open>docker\<close> when none is detected.
\<close>

theorem execCommand_rewrites_leading_name:
  "execCommand sh command s =
     execAsync sh
       (if prefix ''docker'' command \<or> prefix ''podman'' command
        then fst (getCommand sh s) @ drop 6 command else command)
       (snd (getCommand sh s))
   \<and> execCommand sh (''docker'' @ rest) s
       = execAsync sh (fst (getCommand sh s) @ rest) (snd (getCommand sh s))
   \<and> execCommand sh (''podman'' @ rest) s
       = execAsync sh (fst (getCommand sh s) @ rest) (snd (getCommand sh s))
   \<and> fst (getCommand sh s) =
       (case fst (detectRuntime sh s) of
          None \<Rightarrow> ''docker'' | Some Docker \<Rightarrow> ''docker'' | Some Podman \<Rightarrow> ''podman'')"
proof -
  have name: "fst (getCommand sh s) =
       (case fst (detectRuntime sh s) of
          None \<Rightarrow> ''docker'' | Some Docker \<Rightarrow> ''docker'' | Some Podman \<Rightarrow> ''podman'')"
    by (simp add: fst_getCommand split: option.splits RuntimeType.splits)
  have gen: "\<And>c. execCommand sh c s =
     execAsync sh
       (if startsWith c ''docker'' \<or> startsWith c ''podman''
        then fst (getCommand sh s) @ drop 6 c else c)
       (snd (getCommand sh s))"
    by (simp add: execCommand_def split_def Let_def replace_engine
          del: startsWith.simps snd_getCommand)
  have d: "startsWith (''docker'' @ rest) ''docker''" and p: "startsWith (''podman'' @ rest) ''podman''"
    by (rule startsWith_append)+
  have "execCommand sh (''docker'' @ rest) s
       = execAsync sh (fst (getCommand sh s) @ rest) (snd (getCommand sh s))"
    by (simp only: gen d) simp
  moreover have "execCommand sh (''podman'' @ rest) s
       = execAsync sh (fst (getCommand sh s) @ rest) (snd (getCommand sh s))"
    by (simp only: gen p) simp
  ultimately show ?thesis
    using gen [of command] name by (simp add: startsWith_prefix del: startsWith.simps)
qed

theorem execCommand_rewrites_leading_name_witness:
  "execCommand shimHost ''docker run docker podman'' initial
     = (Inl ExecError, \<lparr>detectedRuntime = Some Podman, runtimeInfo = None,
                         issued = [''docker --version'', ''podman run docker podman'']\<rparr>)
   \<and> issued (snd (execCommand noEngineHost ''podman ps --filter name=docker'' initial))
     = [''docker --version'', ''podman --version'', ''docker ps --filter name=docker'']
   \<and> issued (snd (execCommand shimHost '' docker ps'' initial))
     = [''docker --version'', '' docker ps'']"
proof -
  have p: "getCommand shimHost initial
             = (''podman'', \<lparr>detectedRuntime = Some Podman, runtimeInfo = None,
                               issued = [''docker --version'']\<rparr>)"
    by (simp add: getCommand_def shimHost_def host_eval js_eval)
  have n: "getCommand noEngineHost initial
             = (''docker'', \<lparr>detectedRuntime = None, runtimeInfo = None,
                               issued = [''docker --version'', ''podman --version'']\<rparr>)"
    by (simp add: getCommand_def noEngineHost_def host_eval js_eval)
  have a: "shimHost [''docker --version''] ''podman run docker podman'' = Inl ExecError"
    by (simp add: shimHost_def answers_def)
  show ?thesis
    using execCommand_rewrites_leading_name [of shimHost "''docker run docker podman''" initial]
      execCommand_rewrites_leading_name [of noEngineHost "''podman ps --filter name=docker''" initial]
      execCommand_rewrites_leading_name [of shimHost "'' docker ps''" initial]
    by (simp add: p n a execAsync_def startsWith_prefix [symmetric])
qed

section \<open>Failure of the version command\<close>

text \<open>
  C10. When getRuntimeInfo has to assemble a fresh info (an engine is detected and the
  cache holds no info of that kind) and the version command of the engine is rejected,
  getRuntimeInfo returns null and the cached info is what it was before the call.
\<close>

theorem getRuntimeInfo_version_failure:
  assumes "fst (detectRuntime sh s) = Some runtime"
    and "\<forall>ri. runtimeInfo s = Some ri \<longrightarrow> type ri \<noteq> runtime"
    and "sh (issued (snd (detectRuntime sh s))) (runtimeName runtime @ '' --version'') = Inl e"
  shows "fst (getRuntimeInfo sh s) = None
         \<and> runtimeInfo (snd (getRuntimeInfo sh s)) = runtimeInfo s"
proof -
  obtain s1 where d: "detectRuntime sh s = (Some runtime, s1)"
    using assms(1) by (cases "detectRuntime sh s") simp
  have i: "runtimeInfo s1 = runtimeInfo s"
    using detectRuntime_info [of sh s] d by simp
  with assms(2) have miss: "\<not> (case runtimeInfo s1 of None \<Rightarrow> False | Some ri \<Rightarrow> type ri = runtime)"
    by (simp split: option.splits)
  from assms(3) d have v: "sh (issued s1) (runtimeName runtime @ '' --version'') = Inl e"
    by simp
  show ?thesis
    using miss v i by (simp add: getRuntimeInfo_def d execAsync_def Let_def)
qed

theorem getRuntimeInfo_version_failure_witness:
  "fst (detectRuntime flakyHost initial) = Some Docker
   \<and> runtimeInfo initial = None
   \<and> flakyHost [''docker --version''] ''docker --version'' = Inl ExecError
   \<and> getRuntimeInfo flakyHost initial
       = (None, \<lparr>detectedRuntime = Some Docker, runtimeInfo = None,
                  issued = [''docker --version'', ''docker --version'']\<rparr>)"
proof -
  have h1: "fst (detectRuntime flakyHost initial) = Some Docker"
    by (simp add: flakyHost_def dockerHost_def host_eval js_eval)
  have h2: "\<forall>ri. runtimeInfo initial = Some ri \<longrightarrow> type ri \<noteq> Docker"
    by (simp add: initial_def)
  have h3: "flakyHost (issued (snd (detectRuntime flakyHost initial)))
              (runtimeName Docker @ '' --version'') = Inl ExecError"
    by (simp add: flakyHost_def dockerHost_def host_eval js_eval)
  have g: "getRuntimeInfo flakyHost initial
       = (None, \<lparr>detectedRuntime = Some Docker, runtimeInfo = None,
                  issued = [''docker --version'', ''docker --version'']\<rparr>)"
    by (simp add: flakyHost_def dockerHost_def host_eval js_eval)
  have s1: "issued (snd (detectRuntime flakyHost initial)) = [''docker --version'']"
    by (simp add: flakyHost_def dockerHost_def host_eval js_eval)
  have h0: "runtimeInfo initial = None"
    by (simp add: initial_def)
  show ?thesis
    using getRuntimeInfo_version_failure [OF h1 h2 h3] h0 h1 h3 g by (simp add: s1)
qed

section \<open>Readiness\<close>

text \<open>
  C8. satisfiesPrequisites is the conjunction of the eight boolean signals, with the
  group signal counted only when group membership is required (the detected kind is
  docker), and of the two thresholds: ramGB is a number of at least 4 and cpuCores a
  number of at least 2. With every signal satisfied, 4 GB and 2 cores, and group
  membership required, it is false when the user is not in the group and true when the
  user is.
\<close>

theorem satisfiesPrequisites_conjunction:
  "fst (satisfiesPrequisites sh specs s) =
     (dockerInstalled specs \<and> dockerComposeInstalled specs \<and> dockerIsRunning specs
      \<and> (fst (requiresGroupMembership sh s) \<longrightarrow> dockerIsInUserGroups specs)
      \<and> freeRDP3Installed specs \<and> ipTablesLoaded specs \<and> iptableNatLoaded specs
      \<and> kvmEnabled specs
      \<and> (\<exists>ram. ramGB specs = Num ram \<and> 4 \<le> ram)
      \<and> (\<exists>cores. cpuCores specs = Num cores \<and> 2 \<le> cores))
   \<and> fst (requiresGroupMembership sh s) = (fst (detectRuntime sh s) = Some Docker)
   \<and> (fst (requiresGroupMembership sh s) \<longrightarrow>
        fst (satisfiesPrequisites sh (exampleSpecs False) s) = False
        \<and> fst (satisfiesPrequisites sh (exampleSpecs True) s) = True)"
proof -
  have g: "\<And>x k. geNum x k = (\<exists>v. x = Num v \<and> k \<le> v)"
    by (simp add: geNum_def split: number.splits)
  have r: "fst (requiresGroupMembership sh s) = (fst (detectRuntime sh s) = Some Docker)"
    by (simp add: requiresGroupMembership_def split_def)
  have main: "\<And>sp. fst (satisfiesPrequisites sh sp s) =
     (dockerInstalled sp \<and> dockerComposeInstalled sp \<and> dockerIsRunning sp
      \<and> (fst (requiresGroupMembership sh s) \<longrightarrow> dockerIsInUserGroups sp)
      \<and> freeRDP3Installed sp \<and> ipTablesLoaded sp \<and> iptableNatLoaded sp
      \<and> kvmEnabled sp
      \<and> (\<exists>ram. ramGB sp = Num ram \<and> 4 \<le> ram)
      \<and> (\<exists>cores. cpuCores sp = Num cores \<and> 2 \<le> cores))"
    by (simp add: satisfiesPrequisites_def split_def Let_def g)
  have ex: "fst (requiresGroupMembership sh s) \<longrightarrow>
        fst (satisfiesPrequisites sh (exampleSpecs False) s) = False
        \<and> fst (satisfiesPrequisites sh (exampleSpecs True) s) = True"
    by (simp add: main exampleSpecs_def)
  show ?thesis
    using main [of specs] r ex by blast
qed

theorem satisfiesPrequisites_conjunction_witness:
  "fst (requiresGroupMembership dockerHost initial) = True
   \<and> fst (satisfiesPrequisites dockerHost (exampleSpecs False) initial) = False
   \<and> fst (satisfiesPrequisites dockerHost (exampleSpecs True) initial) = True
   \<and> fst (requiresGroupMembership shimHost initial) = False
   \<and> fst (satisfiesPrequisites shimHost (exampleSpecs False) initial) = True"
proof -
  have d: "detectRuntime dockerHost initial
             = (Some Docker, \<lparr>detectedRuntime = Some Docker, runtimeInfo = None,
                               issued = [''docker --version'']\<rparr>)"
    by (simp add: dockerHost_def host_eval js_eval)
  have p: "detectRuntime shimHost initial
             = (Some Podman, \<lparr>detectedRuntime = Some Podman, runtimeInfo = None,
                               issued = [''docker --version'']\<rparr>)"
    by (simp add: shimHost_def host_eval js_eval)
  show ?thesis
    using satisfiesPrequisites_conjunction [of dockerHost _ initial]
      satisfiesPrequisites_conjunction [of shimHost "exampleSpecs False" initial]
    by (simp add: d p exampleSpecs_def)
qed

subsection \<open>The collector, field by field\<close>

lemma case_sum_const [simp]: "(case x of Inl a \<Rightarrow> c | Inr b \<Rightarrow> c) = c"
  by (cases x) simp_all

lemma case_option_const [simp]: "(case x of None \<Rightarrow> c | Some b \<Rightarrow> c) = c"
  by (cases x) simp_all

lemmas getSpecs_unfold = getSpecs_def split_def Let_def defaultSpecs_def

lemma getSpecs_cpuCores:
  "cpuCores (fst (getSpecs h sh s)) =
     (case sh (issued s) lscpuCommand of
        Inl e \<Rightarrow> Num 0
      | Inr out \<Rightarrow> parseInt (trim (stdout out)) (Some 10))"
  by (simp add: getSpecs_unfold sum.case_distrib [of cpuCores] option.case_distrib [of cpuCores]
        if_distrib [of cpuCores]
        cong: sum.case_cong option.case_cong if_cong)

lemma getSpecs_ramGB:
  "ramGB (fst (getSpecs h sh s)) =
     (case getMemoryInfo h of Inl e \<Rightarrow> Num 0 | Inr m \<Rightarrow> totalGB m)"
  by (simp add: getSpecs_unfold sum.case_distrib [of ramGB] option.case_distrib [of ramGB]
        if_distrib [of ramGB]
        cong: sum.case_cong option.case_cong if_cong)

lemma getSpecs_kvmEnabled:
  "kvmEnabled (fst (getSpecs h sh s)) =
     (case readFileSync h ''/proc/cpuinfo'' of
        Inl e \<Rightarrow> False
      | Inr cpuInfo \<Rightarrow> (includes' cpuInfo ''vmx'' \<or> includes' cpuInfo ''svm'')
                         \<and> existsSync h ''/dev/kvm'')"
  by (simp add: getSpecs_unfold sum.case_distrib [of kvmEnabled]
        option.case_distrib [of kvmEnabled] if_distrib [of kvmEnabled]
        del: includes'.simps cong: sum.case_cong option.case_cong if_cong)

lemma getSpecs_dockerInstalled:
  "dockerInstalled (fst (getSpecs h sh s)) =
     (fst (detectRuntime sh (snd (execAsync sh lscpuCommand s))) \<noteq> None)"
  by (simp add: getSpecs_unfold sum.case_distrib [of dockerInstalled]
        option.case_distrib [of dockerInstalled] if_distrib [of dockerInstalled]
        cong: sum.case_cong option.case_cong if_cong)

lemma getSpecs_dockerComposeInstalled:
  "dockerComposeInstalled (fst (getSpecs h sh s)) =
     (case fst (getRuntimeInfo sh (snd (detectRuntime sh (snd (execAsync sh lscpuCommand s))))) of
        None \<Rightarrow> False
      | Some ri \<Rightarrow> composeInstalled ri)"
  by (simp add: getSpecs_unfold sum.case_distrib [of dockerComposeInstalled]
        option.case_distrib [of dockerComposeInstalled] if_distrib [of dockerComposeInstalled]
        cong: sum.case_cong option.case_cong if_cong)


lemma getSpecs_dockerIsRunning:
  "dockerIsRunning (fst (getSpecs h sh s)) =
     fst (isRuntimeRunning sh
       (snd (getRuntimeInfo sh (snd (detectRuntime sh (snd (execAsync sh lscpuCommand s)))))))"
  by (simp add: getSpecs_unfold sum.case_distrib [of dockerIsRunning]
        option.case_distrib [of dockerIsRunning] if_distrib [of dockerIsRunning]
        cong: sum.case_cong option.case_cong if_cong)

lemma getSpecs_dockerIsInUserGroups:
  "dockerIsInUserGroups (fst (getSpecs h sh s)) =
     fst (isUserInRuntimeGroup sh
       (snd (isRuntimeRunning sh
         (snd (getRuntimeInfo sh (snd (detectRuntime sh (snd (execAsync sh lscpuCommand s)))))))))"
  by (simp add: getSpecs_unfold sum.case_distrib [of dockerIsInUserGroups]
        option.case_distrib [of dockerIsInUserGroups] if_distrib [of dockerIsInUserGroups]
        cong: sum.case_cong option.case_cong if_cong)

lemma getSpecs_freeRDP3Installed:
  "freeRDP3Installed (fst (getSpecs h sh s)) =
     (case getFreeRDP h of
        Inl e \<Rightarrow> False
      | Inr freeRDPBin \<Rightarrow> (case freeRDPBin of None \<Rightarrow> False | Some b \<Rightarrow> b \<noteq> []))"
  by (simp add: getSpecs_unfold sum.case_distrib [of freeRDP3Installed]
        option.case_distrib [of freeRDP3Installed] if_distrib [of freeRDP3Installed]
        cong: sum.case_cong option.case_cong if_cong)

lemma getSpecs_ipTablesLoaded:
  "ipTablesLoaded (fst (getSpecs h sh s)) =
     (case sh (issued (snd (isUserInRuntimeGroup sh
                 (snd (isRuntimeRunning sh
                   (snd (getRuntimeInfo sh
                     (snd (detectRuntime sh (snd (execAsync sh lscpuCommand s)))))))))))
              ''lsmod | grep ip_tables'' of
        Inl e \<Rightarrow> False
      | Inr out \<Rightarrow> trim (stdout out) \<noteq> [])"
  by (simp add: getSpecs_unfold sum.case_distrib [of ipTablesLoaded]
        option.case_distrib [of ipTablesLoaded] if_distrib [of ipTablesLoaded]
        cong: sum.case_cong option.case_cong if_cong)

lemma getSpecs_iptableNatLoaded:
  "iptableNatLoaded (fst (getSpecs h sh s)) =
     (case sh (issued (snd (isUserInRuntimeGroup sh
                 (snd (isRuntimeRunning sh
                   (snd (getRuntimeInfo sh
                     (snd (detectRuntime sh (snd (execAsync sh lscpuCommand s))))))))))
               @ [''lsmod | grep ip_tables''])
              ''lsmod | grep iptable_nat'' of
        Inl e \<Rightarrow> False
      | Inr out \<Rightarrow> trim (stdout out) \<noteq> [])"
  by (simp add: getSpecs_unfold sum.case_distrib [of iptableNatLoaded]
        option.case_distrib [of iptableNatLoaded] if_distrib [of iptableNatLoaded]
        cong: sum.case_cong option.case_cong if_cong)

lemma getMemoryInfo_rethrows:
  "getMemoryInfo h = Inl e \<longleftrightarrow> readFileSync h ''/proc/meminfo'' = Inl e"
  by (simp add: getMemoryInfo_def Let_def split: sum.splits)

lemma isRuntimeRunning_rejected:
  "sh (issued (snd (getCommand sh s))) (fst (getCommand sh s) @ '' ps'') = Inl e
     \<Longrightarrow> fst (isRuntimeRunning sh s) = False"
  by (simp add: isRuntimeRunning_def split_def Let_def execAsync_def del: snd_getCommand)

lemma isUserInRuntimeGroup_rejected:
  "fst (detectRuntime sh s) = Some Docker \<Longrightarrow>
   sh (issued (snd (detectRuntime sh s))) ''id -Gn'' = Inl e \<Longrightarrow>
   fst (isUserInRuntimeGroup sh s) = False"
  by (cases "detectRuntime sh s") (simp add: isUserInRuntimeGroup_def execAsync_def)

text \<open>
  C9. getMemoryInfo fails exactly when \<open>/proc/meminfo\<close> cannot be read, and with that
  error; getSpecs always returns, and each field of its result is decided by its own probe
  alone: the value the probe gives when it succeeds, and the default (0 or false) when it
  fails, whatever the other probes do.
\<close>

theorem getSpecs_isolates_probes:
  "let s1 = snd (execAsync sh lscpuCommand s);
       s2 = snd (detectRuntime sh s1);
       s3 = snd (getRuntimeInfo sh s2);
       s4 = snd (isRuntimeRunning sh s3);
       s5 = snd (isUserInRuntimeGroup sh s4);
       specs = fst (getSpecs h sh s)
   in (\<forall>e. getMemoryInfo h = Inl e \<longleftrightarrow> readFileSync h ''/proc/meminfo'' = Inl e)
      \<and> cpuCores specs =
          (case sh (issued s) lscpuCommand of
             Inl e \<Rightarrow> Num 0
           | Inr out \<Rightarrow> parseInt (trim (stdout out)) (Some 10))
      \<and> ramGB specs = (case getMemoryInfo h of Inl e \<Rightarrow> Num 0 | Inr m \<Rightarrow> totalGB m)
      \<and> kvmEnabled specs =
          (case readFileSync h ''/proc/cpuinfo'' of
             Inl e \<Rightarrow> False
           | Inr cpuInfo \<Rightarrow> (includes' cpuInfo ''vmx'' \<or> includes' cpuInfo ''svm'')
                              \<and> existsSync h ''/dev/kvm'')
      \<and> dockerInstalled specs = (fst (detectRuntime sh s1) \<noteq> None)
      \<and> dockerComposeInstalled specs =
          (case fst (getRuntimeInfo sh s2) of None \<Rightarrow> False | Some ri \<Rightarrow> composeInstalled ri)
      \<and> dockerIsRunning specs = fst (isRuntimeRunning sh s3)
      \<and> (\<forall>e. sh (issued (snd (getCommand sh s3))) (fst (getCommand sh s3) @ '' ps'') = Inl e
            \<longrightarrow> dockerIsRunning specs = False)
      \<and> dockerIsInUserGroups specs = fst (isUserInRuntimeGroup sh s4)
      \<and> (\<forall>e. fst (detectRuntime sh s4) = Some Docker
               \<and> sh (issued (snd (detectRuntime sh s4))) ''id -Gn'' = Inl e
            \<longrightarrow> dockerIsInUserGroups specs = False)
      \<and> freeRDP3Installed specs =
          (case getFreeRDP h of
             Inl e \<Rightarrow> False
           | Inr freeRDPBin \<Rightarrow> (case freeRDPBin of None \<Rightarrow> False | Some b \<Rightarrow> b \<noteq> []))
      \<and> ipTablesLoaded specs =
          (case sh (issued s5) ''lsmod | grep ip_tables'' of
             Inl e \<Rightarrow> False
           | Inr out \<Rightarrow> trim (stdout out) \<noteq> [])
      \<and> iptableNatLoaded specs =
          (case sh (issued s5 @ [''lsmod | grep ip_tables'']) ''lsmod | grep iptable_nat'' of
             Inl e \<Rightarrow> False
           | Inr out \<Rightarrow> trim (stdout out) \<noteq> [])"
  unfolding Let_def
proof (intro conjI allI impI)
  fix e
  show "getMemoryInfo h = Inl e \<longleftrightarrow> readFileSync h ''/proc/meminfo'' = Inl e"
    by (rule getMemoryInfo_rethrows)
next
  fix e
  assume "sh (issued (snd (getCommand sh (snd (getRuntimeInfo sh (snd (detectRuntime sh
             (snd (execAsync sh lscpuCommand s)))))))))
            (fst (getCommand sh (snd (getRuntimeInfo sh (snd (detectRuntime sh
             (snd (execAsync sh lscpuCommand s))))))) @ '' ps'') = Inl e"
  then show "dockerIsRunning (fst (getSpecs h sh s)) = False"
    by (simp only: getSpecs_dockerIsRunning isRuntimeRunning_rejected)
next
  fix e
  assume "fst (detectRuntime sh (snd (isRuntimeRunning sh (snd (getRuntimeInfo sh
            (snd (detectRuntime sh (snd (execAsync sh lscpuCommand s))))))))) = Some Docker
        \<and> sh (issued (snd (detectRuntime sh (snd (isRuntimeRunning sh (snd (getRuntimeInfo sh
            (snd (detectRuntime sh (snd (execAsync sh lscpuCommand s))))))))))) ''id -Gn'' = Inl e"
  then show "dockerIsInUserGroups (fst (getSpecs h sh s)) = False"
    by (simp only: getSpecs_dockerIsInUserGroups isUserInRuntimeGroup_rejected)
qed (simp_all only: getSpecs_cpuCores getSpecs_ramGB getSpecs_kvmEnabled getSpecs_dockerInstalled
       getSpecs_dockerComposeInstalled getSpecs_dockerIsRunning getSpecs_dockerIsInUserGroups
       getSpecs_freeRDP3Installed getSpecs_ipTablesLoaded getSpecs_iptableNatLoaded)

lemma bare_stages:
  "snd (execAsync bareDockerHost lscpuCommand initial)
     = \<lparr>detectedRuntime = None, runtimeInfo = None, issued = [lscpuCommand]\<rparr>"
  "detectRuntime bareDockerHost
       \<lparr>detectedRuntime = None, runtimeInfo = None, issued = [lscpuCommand]\<rparr>
     = (Some Docker, \<lparr>detectedRuntime = Some Docker, runtimeInfo = None,
                       issued = [lscpuCommand, ''docker --version'']\<rparr>)"
  "getRuntimeInfo bareDockerHost
       \<lparr>detectedRuntime = Some Docker, runtimeInfo = None,
        issued = [lscpuCommand, ''docker --version'']\<rparr>
     = (Some \<lparr>type = Docker, version = ''Docker version 24.0.5'', composeInstalled = False,
              composeVersion = None\<rparr>,
        \<lparr>detectedRuntime = Some Docker,
         runtimeInfo = Some \<lparr>type = Docker, version = ''Docker version 24.0.5'',
                             composeInstalled = False, composeVersion = None\<rparr>,
         issued = [lscpuCommand, ''docker --version'', ''docker --version'',
                   ''docker compose version'']\<rparr>)"
  by (simp_all add: bareDockerHost_def lscpuCommand_def host_eval js_eval)

lemma bare_stages2:
  "getCommand bareDockerHost
       \<lparr>detectedRuntime = Some Docker,
        runtimeInfo = Some \<lparr>type = Docker, version = ''Docker version 24.0.5'',
                            composeInstalled = False, composeVersion = None\<rparr>,
        issued = [lscpuCommand, ''docker --version'', ''docker --version'',
                  ''docker compose version'']\<rparr>
     = (''docker'',
        \<lparr>detectedRuntime = Some Docker,
         runtimeInfo = Some \<lparr>type = Docker, version = ''Docker version 24.0.5'',
                             composeInstalled = False, composeVersion = None\<rparr>,
         issued = [lscpuCommand, ''docker --version'', ''docker --version'',
                   ''docker compose version'']\<rparr>)"
  "isRuntimeRunning bareDockerHost
       \<lparr>detectedRuntime = Some Docker,
        runtimeInfo = Some \<lparr>type = Docker, version = ''Docker version 24.0.5'',
                            composeInstalled = False, composeVersion = None\<rparr>,
        issued = [lscpuCommand, ''docker --version'', ''docker --version'',
                  ''docker compose version'']\<rparr>
     = (False,
        \<lparr>detectedRuntime = Some Docker,
         runtimeInfo = Some \<lparr>type = Docker, version = ''Docker version 24.0.5'',
                             composeInstalled = False, composeVersion = None\<rparr>,
         issued = [lscpuCommand, ''docker --version'', ''docker --version'',
                   ''docker compose version'', ''docker ps'']\<rparr>)"
  "detectRuntime bareDockerHost
       \<lparr>detectedRuntime = Some Docker,
        runtimeInfo = Some \<lparr>type = Docker, version = ''Docker version 24.0.5'',
                            composeInstalled = False, composeVersion = None\<rparr>,
        issued = [lscpuCommand, ''docker --version'', ''docker --version'',
                  ''docker compose version'', ''docker ps'']\<rparr>
     = (Some Docker,
        \<lparr>detectedRuntime = Some Docker,
         runtimeInfo = Some \<lparr>type = Docker, version = ''Docker version 24.0.5'',
                             composeInstalled = False, composeVersion = None\<rparr>,
         issued = [lscpuCommand, ''docker --version'', ''docker --version'',
                   ''docker compose version'', ''docker ps'']\<rparr>)"
  "bareDockerHost [lscpuCommand, ''docker --version'', ''docker --version'',
                   ''docker compose version''] ''docker ps'' = Inl ExecError"
  "bareDockerHost [lscpuCommand, ''docker --version'', ''docker --version'',
                   ''docker compose version'', ''docker ps''] ''id -Gn'' = Inl ExecError"
  "bareDockerHost [] lscpuCommand = Inl ExecError"
  by (simp_all add: bareDockerHost_def lscpuCommand_def getCommand_def isRuntimeRunning_def
        split_def host_eval js_eval)


lemma bare_stages3:
  "isUserInRuntimeGroup bareDockerHost
       \<lparr>detectedRuntime = Some Docker,
        runtimeInfo = Some \<lparr>type = Docker, version = ''Docker version 24.0.5'',
                            composeInstalled = False, composeVersion = None\<rparr>,
        issued = [lscpuCommand, ''docker --version'', ''docker --version'',
                  ''docker compose version'', ''docker ps'']\<rparr>
     = (False,
        \<lparr>detectedRuntime = Some Docker,
         runtimeInfo = Some \<lparr>type = Docker, version = ''Docker version 24.0.5'',
                             composeInstalled = False, composeVersion = None\<rparr>,
         issued = [lscpuCommand, ''docker --version'', ''docker --version'',
                   ''docker compose version'', ''docker ps'', ''id -Gn'']\<rparr>)"
  "bareDockerHost [lscpuCommand, ''docker --version'', ''docker --version'',
                   ''docker compose version'', ''docker ps'', ''id -Gn'']
     ''lsmod | grep ip_tables'' = Inl ExecError"
  "bareDockerHost [lscpuCommand, ''docker --version'', ''docker --version'',
                   ''docker compose version'', ''docker ps'', ''id -Gn'',
                   ''lsmod | grep ip_tables'']
     ''lsmod | grep iptable_nat'' = Inl ExecError"
  by (simp_all add: bareDockerHost_def lscpuCommand_def isUserInRuntimeGroup_def
        host_eval js_eval)

theorem getSpecs_isolates_probes_witness:
  "readFileSync deadHost ''/proc/meminfo'' = Inl ReadError
   \<and> getMemoryInfo deadHost = Inl ReadError
   \<and> bareDockerHost [lscpuCommand, ''docker --version'', ''docker --version'',
                       ''docker compose version''] ''docker ps'' = Inl ExecError
   \<and> bareDockerHost [lscpuCommand, ''docker --version'', ''docker --version'',
                       ''docker compose version'', ''docker ps''] ''id -Gn'' = Inl ExecError
   \<and> cpuCores (fst (getSpecs deadHost bareDockerHost initial)) = Num 0
   \<and> ramGB (fst (getSpecs deadHost bareDockerHost initial)) = Num 0
   \<and> kvmEnabled (fst (getSpecs deadHost bareDockerHost initial)) = False
   \<and> dockerInstalled (fst (getSpecs deadHost bareDockerHost initial)) = True
   \<and> dockerComposeInstalled (fst (getSpecs deadHost bareDockerHost initial)) = False
   \<and> dockerIsRunning (fst (getSpecs deadHost bareDockerHost initial)) = False
   \<and> dockerIsInUserGroups (fst (getSpecs deadHost bareDockerHost initial)) = False
   \<and> freeRDP3Installed (fst (getSpecs deadHost bareDockerHost initial)) = False
   \<and> ipTablesLoaded (fst (getSpecs deadHost bareDockerHost initial)) = False
   \<and> iptableNatLoaded (fst (getSpecs deadHost bareDockerHost initial)) = False"
proof -
  have m: "readFileSync deadHost ''/proc/meminfo'' = Inl ReadError"
    "readFileSync deadHost ''/proc/cpuinfo'' = Inl ReadError"
    "getFreeRDP deadHost = Inl LocatorError"
    "getMemoryInfo deadHost = Inl ReadError"
    by (simp_all add: deadHost_def getMemoryInfo_def)
  have i: "issued initial = []"
    by (simp add: initial_def)
  note t = getSpecs_isolates_probes [of bareDockerHost initial deadHost, unfolded Let_def]
  show ?thesis
    using t by (simp add: m i bare_stages bare_stages2 bare_stages3)
qed

end
